theory Spec2Isabelle
  imports Complex_Main "HOL-Library.Sublist" "HOL-Library.Log_Nat"
begin

section \<open>Orders status overview: the data\<close>

text \<open>
  A JavaScript string is modelled as a \<^typ>\<open>string\<close>, one \<^typ>\<open>char\<close> for each code unit
  (so the model covers the code units below 256). A field that GraphQL may deliver as
  \<open>null\<close>, or that may be missing, is an \<open>option\<close>.
\<close>

record fulfillment =
  status :: "string option"
  displayStatus :: "string option"

record order =
  order_id :: string
  order_name :: string
  createdAt :: string
  displayFulfillmentStatus :: "string option"
  fulfillments :: "fulfillment list option"

text \<open>
  \<open>a || b\<close> on an optional string: \<open>a\<close> when it is truthy (neither \<open>null\<close> nor the empty
  string), otherwise \<open>b\<close>, whatever \<open>b\<close> is.
\<close>

definition js_or :: "string option \<Rightarrow> string option \<Rightarrow> string option" where
  "js_or a b = (case a of None \<Rightarrow> b | Some s \<Rightarrow> if s = [] then b else Some s)"

text \<open>\<open>fulfillment.displayStatus || fulfillment.status\<close>, the effective status.\<close>

definition effectiveStatus :: "fulfillment \<Rightarrow> string option" where
  "effectiveStatus f = js_or (displayStatus f) (status f)"

section \<open>The fulfillment classifier\<close>

text \<open>
  The \<open>for\<close> loop of \<open>getOrderFulfillmentStatus\<close> with its three early returns:
  \<open>Some l\<close> when the loop returns the label \<open>l\<close>, \<open>None\<close> when it runs to its end.
\<close>

fun primaryScan :: "fulfillment list \<Rightarrow> string option" where
  "primaryScan [] = None"
| "primaryScan (f # fs) =
     (let d = effectiveStatus f in
      if d = Some ''DELIVERED'' then Some ''DELIVERED''
      else if d = Some ''FULFILLED'' then Some ''FULFILLED''
      else if d = Some ''IN_TRANSIT'' then Some ''IN_TRANSIT''
      else primaryScan fs)"

text \<open>\<open>fulfillments.some((f) => (f.displayStatus || f.status) === "FULFILLED")\<close>\<close>

definition hasFulfilled :: "fulfillment list \<Rightarrow> bool" where
  "hasFulfilled fs = list_ex (\<lambda>f. effectiveStatus f = Some ''FULFILLED'') fs"

definition getOrderFulfillmentStatus :: "order \<Rightarrow> string" where
  "getOrderFulfillmentStatus ord =
     (let fs = (case fulfillments ord of None \<Rightarrow> [] | Some l \<Rightarrow> l) in
      if length fs = 0 then ''NOT_DELIVERED''
      else (case primaryScan fs of
              Some l \<Rightarrow> l
            | None \<Rightarrow> if hasFulfilled fs then ''FULFILLED'' else ''NOT_DELIVERED''))"

text \<open>The same function with lines 36 to 43 (the second scan) left out.\<close>

definition getOrderFulfillmentStatus_noRescan :: "order \<Rightarrow> string" where
  "getOrderFulfillmentStatus_noRescan ord =
     (let fs = (case fulfillments ord of None \<Rightarrow> [] | Some l \<Rightarrow> l) in
      if length fs = 0 then ''NOT_DELIVERED''
      else (case primaryScan fs of
              Some l \<Rightarrow> l
            | None \<Rightarrow> ''NOT_DELIVERED''))"

text \<open>The condition under which the body of the loop returns at the fulfillment \<open>f\<close>.\<close>

definition isTarget :: "fulfillment \<Rightarrow> bool" where
  "isTarget f =
     (effectiveStatus f = Some ''DELIVERED'' \<or> effectiveStatus f = Some ''FULFILLED''
      \<or> effectiveStatus f = Some ''IN_TRANSIT'')"

text \<open>Shorthands for concrete orders and fulfillments.\<close>

definition mkOrder :: "fulfillment list \<Rightarrow> order" where
  "mkOrder fs = \<lparr>order_id = ''gid://shopify/Order/1'', order_name = ''#1001'',
     createdAt = ''2024-01-01T00:00:00Z'', displayFulfillmentStatus = None,
     fulfillments = Some fs\<rparr>"

definition withDisplayStatus :: "string \<Rightarrow> fulfillment" where
  "withDisplayStatus s = \<lparr>status = None, displayStatus = Some s\<rparr>"

definition withStatus :: "string \<Rightarrow> fulfillment" where
  "withStatus s = \<lparr>status = Some s, displayStatus = None\<rparr>"

section \<open>JavaScript numbers\<close>

text \<open>
  The loader's percentages are JavaScript Numbers, IEEE 754 binary64. A finite Number is
  a rational, and each arithmetic operation returns the exact result rounded to the
  nearest Number, ties to the even significand. \<open>fl\<close> is that rounding for a significand
  of 53 bits; the exponent is not bounded here, so \<open>fl\<close> is the rounding of binary64 on
  magnitudes from \<open>2^-1022\<close> up to \<open>2^1024\<close>, which is where every value of the loader lies
  (quotients \<open>count / total\<close> of array lengths, and their products with 100).
\<close>

definition roundHalfEven :: "rat \<Rightarrow> int" where
  "roundHalfEven y =
     (let f = \<lfloor>y\<rfloor>; r = y - of_int f in
      if r < 1 / 2 then f
      else if 1 / 2 < r then f + 1
      else if even f then f else f + 1)"

text \<open>The binary exponent of a positive rational: \<open>2 powi ilog2 x \<le> x < 2 powi (ilog2 x + 1)\<close>.\<close>

definition ilog2 :: "rat \<Rightarrow> int" where
  "ilog2 x = (if 1 \<le> x then bitlen \<lfloor>x\<rfloor> - 1 else - bitlen (\<lceil>1 / x\<rceil> - 1))"

definition fl :: "rat \<Rightarrow> rat" where
  "fl x = (if x = 0 then 0
           else (let e = ilog2 \<bar>x\<bar> - 52 in of_int (roundHalfEven (x / 2 powi e)) * 2 powi e))"

text \<open>The operators the loader uses, on Numbers.\<close>

definition js_div :: "rat \<Rightarrow> rat \<Rightarrow> rat" where
  "js_div a b = fl (a / b)"

definition js_mul :: "rat \<Rightarrow> rat \<Rightarrow> rat" where
  "js_mul a b = fl (a * b)"

text \<open>
  \<open>Math.round\<close>: the integer nearest to its argument, a tie going up. It is exact: the
  nearest integer of a Number is a Number.
\<close>

definition Math_round :: "rat \<Rightarrow> rat" where
  "Math_round x = of_int \<lfloor>x + 1 / 2\<rfloor>"

section \<open>The orders loader\<close>

record gql_error =
  message :: "string option"

record edge =
  node :: order

record connection =
  edges :: "edge list option"

record data =
  orders :: "connection option"

record json =
  errors :: "gql_error list option"
  data :: "data option"

text \<open>A thrown value: an error object with its (optional) message.\<close>

record js_error =
  error_name :: string
  error_message :: "string option"

text \<open>What \<open>admin.graphql(...)\<close> followed by \<open>response.json()\<close> does: throw, or give the body.\<close>

datatype fetched = Throws js_error | Resolves json

text \<open>\<open>String.prototype.includes\<close>\<close>

fun js_includes :: "string \<Rightarrow> string \<Rightarrow> bool" where
  "js_includes [] sub = (sub = [])"
| "js_includes (c # cs) sub = (prefix sub (c # cs) \<or> js_includes cs sub)"

text \<open>
  The test written out twice in the loader, on \<open>error.message\<close> of a GraphQL error and of
  the caught error; \<open>message?.includes(...)\<close> is \<open>undefined\<close>, so falsy, without a message.
\<close>

definition permissionMessage :: "string option \<Rightarrow> bool" where
  "permissionMessage m =
     (case m of
        None \<Rightarrow> False
      | Some s \<Rightarrow> js_includes s ''Access denied'' \<or> js_includes s ''not approved''
                  \<or> js_includes s ''Order object'')"

definition accessDenied :: "gql_error list \<Rightarrow> bool" where
  "accessDenied es = list_ex (\<lambda>e. permissionMessage (message e)) es"

definition reinstallMessage :: string where
  "reinstallMessage = ''This app needs to be reinstalled to access orders. Please uninstall and reinstall the app to grant order permissions.''"

record 'a status_table =
  DELIVERED :: 'a
  NOT_DELIVERED :: 'a
  FULFILLED :: 'a
  IN_TRANSIT :: 'a

record percentages =
  delivered :: rat
  notDelivered :: rat
  byStatus :: "rat status_table"

record overview =
  totalOrders :: nat
  statusCounts :: "nat status_table"
  percentages :: percentages
  error :: "string option"

text \<open>The two shapes of object the loader returns.\<close>

datatype loader_data = AccessDeniedResult string string | OverviewResult overview

text \<open>\<open>json.data?.orders?.edges?.map((edge) => edge.node) ?? []\<close>\<close>

definition ordersOf :: "json \<Rightarrow> order list" where
  "ordersOf j =
     (case data j of
        None \<Rightarrow> []
      | Some d \<Rightarrow> (case orders d of
                    None \<Rightarrow> []
                  | Some c \<Rightarrow> (case edges c of
                                None \<Rightarrow> []
                              | Some es \<Rightarrow> map node es)))"

definition initialCounts :: "nat status_table" where
  "initialCounts = \<lparr>DELIVERED = 0, NOT_DELIVERED = 0, FULFILLED = 0, IN_TRANSIT = 0\<rparr>"

text \<open>
  \<open>if (statusCounts.hasOwnProperty(status)) statusCounts[status] += 1\<close>: the object has
  the four keys of its literal and no other.
\<close>

definition countStatus :: "nat status_table \<Rightarrow> string \<Rightarrow> nat status_table" where
  "countStatus sc s =
     (if s = ''DELIVERED'' then sc\<lparr>DELIVERED := DELIVERED sc + 1\<rparr>
      else if s = ''NOT_DELIVERED'' then sc\<lparr>NOT_DELIVERED := NOT_DELIVERED sc + 1\<rparr>
      else if s = ''FULFILLED'' then sc\<lparr>FULFILLED := FULFILLED sc + 1\<rparr>
      else if s = ''IN_TRANSIT'' then sc\<lparr>IN_TRANSIT := IN_TRANSIT sc + 1\<rparr>
      else sc)"

text \<open>The loop over the orders.\<close>

fun groupOrders :: "nat status_table \<Rightarrow> order list \<Rightarrow> nat status_table" where
  "groupOrders sc [] = sc"
| "groupOrders sc (ord # rest) = groupOrders (countStatus sc (getOrderFulfillmentStatus ord)) rest"

text \<open>
  The expression written six times in the loader:
  \<open>total > 0 ? Math.round((count / total) * 100 * 100) / 100 : 0\<close>.
\<close>

definition percentOf :: "nat \<Rightarrow> nat \<Rightarrow> rat" where
  "percentOf cnt tot =
     (if tot > 0
      then js_div (Math_round (js_mul (js_mul (js_div (of_nat cnt) (of_nat tot)) 100) 100)) 100
      else 0)"

definition deliveredCount :: "nat status_table \<Rightarrow> nat" where
  "deliveredCount sc = DELIVERED sc"

definition notDeliveredCount :: "nat status_table \<Rightarrow> nat" where
  "notDeliveredCount sc = NOT_DELIVERED sc + FULFILLED sc + IN_TRANSIT sc"

text \<open>
  Lines 95 to 158 of the loader: from the list of orders to the object returned.
\<close>

definition summarize :: "order list \<Rightarrow> overview" where
  "summarize os =
     (let sc = groupOrders initialCounts os;
          tot = length os
      in \<lparr>totalOrders = tot,
          statusCounts = sc,
          percentages =
            \<lparr>delivered = percentOf (deliveredCount sc) tot,
             notDelivered = percentOf (notDeliveredCount sc) tot,
             byStatus = \<lparr>DELIVERED = percentOf (DELIVERED sc) tot,
                         NOT_DELIVERED = percentOf (NOT_DELIVERED sc) tot,
                         FULFILLED = percentOf (FULFILLED sc) tot,
                         IN_TRANSIT = percentOf (IN_TRANSIT sc) tot\<rparr>\<rparr>,
          error = None\<rparr>)"

text \<open>
  The loader, from the outcome of the fetch on: \<open>Inl e\<close> when it throws \<open>e\<close>, \<open>Inr r\<close> when
  it returns \<open>r\<close>. The \<open>try\<close> body is the \<open>Resolves\<close> branch, the \<open>catch\<close> the other one.
\<close>

definition loader :: "fetched \<Rightarrow> js_error + loader_data" where
  "loader f =
     (case f of
        Resolves j \<Rightarrow>
          (if (case errors j of None \<Rightarrow> False | Some es \<Rightarrow> accessDenied es)
           then Inr (AccessDeniedResult ''access_denied'' reinstallMessage)
           else Inr (OverviewResult (summarize (ordersOf j))))
      | Throws e \<Rightarrow>
          (if permissionMessage (error_message e)
           then Inr (AccessDeniedResult ''access_denied'' reinstallMessage)
           else Inl e))"

section \<open>The profile form\<close>

text \<open>The white space of \<open>trim\<close> and \<open>parseInt\<close>, among the code units below 256.\<close>

definition isWhiteSpace :: "char \<Rightarrow> bool" where
  "isWhiteSpace c = (c \<in> set [CHR 0x09, CHR 0x0A, CHR 0x0B, CHR 0x0C, CHR 0x0D, CHR 0x20, CHR 0xA0])"

definition trim :: "string \<Rightarrow> string" where
  "trim s = rev (dropWhile isWhiteSpace (rev (dropWhile isWhiteSpace s)))"

text \<open>\<open>value?.toString().trim() || ""\<close>, for a form value that is a string or missing.\<close>

definition sanitizeText :: "string option \<Rightarrow> string" where
  "sanitizeText v =
     (case v of
        None \<Rightarrow> []
      | Some s \<Rightarrow> (let t = trim s in if t = [] then [] else t))"

definition isDigit :: "char \<Rightarrow> bool" where
  "isDigit c = (c \<in> set ''0123456789'')"

definition digitValue :: "char \<Rightarrow> int" where
  "digitValue c = int (of_char c) - 48"

definition decimalValue :: "string \<Rightarrow> int" where
  "decimalValue ds = foldl (\<lambda>a c. 10 * a + digitValue c) 0 ds"

text \<open>
  A Number as \<open>parseInt\<close> returns it: \<open>NaN\<close>, an infinity, or a finite binary64 value, which
  is a rational. The two zeros are the one \<open>Finite 0\<close>: they compare equal and neither is
  below 0.
\<close>

datatype js_number = NaN | Finite rat | PosInfinity | NegInfinity

text \<open>
  The Number of a mathematical integer: the nearest binary64 value, a tie going to the
  even significand, and an infinity as soon as that rounding reaches \<open>2^1024\<close>, which is
  from \<open>2^1024 - 2^970\<close> on. An integer is never subnormal, so \<open>fl\<close> is the rounding.
\<close>

definition toNumber :: "int \<Rightarrow> js_number" where
  "toNumber v =
     (let r = fl (of_int v) in
      if 2 ^ 1024 \<le> r then PosInfinity
      else if r \<le> - (2 ^ 1024) then NegInfinity
      else Finite r)"

text \<open>
  The first steps of \<open>Number.parseInt(s, 10)\<close>: leading white space is skipped, then an
  optional sign, then the longest run of decimal digits is read and the rest of the
  string ignored. \<open>None\<close> when there is no digit, otherwise the integer written, with its
  sign.
\<close>

definition mathInt :: "string \<Rightarrow> int option" where
  "mathInt str =
     (let s = dropWhile isWhiteSpace str;
          sign = (case s of c # _ \<Rightarrow> if c = CHR ''-'' then - 1 else 1 | [] \<Rightarrow> (1::int));
          s' = (case s of c # r \<Rightarrow> if c = CHR ''-'' \<or> c = CHR ''+'' then r else s | [] \<Rightarrow> s);
          z = takeWhile isDigit s'
      in if z = [] then None else Some (sign * decimalValue z))"

text \<open>
  \<open>Number.parseInt(s, 10)\<close>: \<open>NaN\<close> without a digit, otherwise the Number of the integer
  read. (The language fixes that Number for up to 20 significant digits and lets an
  implementation round the further digits away; V8 rounds the whole integer correctly,
  as here.)
\<close>

definition parseInt :: "string \<Rightarrow> js_number" where
  "parseInt str = (case mathInt str of None \<Rightarrow> NaN | Some v \<Rightarrow> toNumber v)"

text \<open>\<open>Number.isNaN(age)\<close> and \<open>age < 0\<close>.\<close>

definition isNaN :: "js_number \<Rightarrow> bool" where
  "isNaN n = (n = NaN)"

definition lessThanZero :: "js_number \<Rightarrow> bool" where
  "lessThanZero n = (case n of Finite r \<Rightarrow> r < 0 | NegInfinity \<Rightarrow> True | _ \<Rightarrow> False)"

record form =
  name_field :: "string option"
  age_field :: "string option"

text \<open>The \<open>data\<close> handed to \<open>prisma.profile.create\<close>; the age is the parsed Number.\<close>

record profile_data =
  name :: string
  age :: js_number

record form_values =
  values_name :: string
  values_age :: string

text \<open>What the action answers: the 400 response with its JSON body, or the redirect.\<close>

datatype action_result =
    BadRequest "(string \<times> string) list" form_values
  | Redirect string

text \<open>The \<open>errors\<close> object, its keys in the order they are assigned.\<close>

definition validate :: "string \<Rightarrow> string \<Rightarrow> js_number \<Rightarrow> (string \<times> string) list" where
  "validate nm ageValue ag =
     (if nm = [] then [(''name'', ''Name is required'')] else [])
     @ (if ageValue = [] then [(''age'', ''Age is required'')]
        else if isNaN ag \<or> lessThanZero ag
             then [(''age'', ''Age must be a valid non-negative number'')]
             else [])"

text \<open>
  The action on the table of profiles, which holds the data handed to
  \<open>prisma.profile.create\<close>, in the order of the calls. What the store does with a row is
  outside the repository.
\<close>

definition action :: "form \<Rightarrow> profile_data list \<Rightarrow> action_result \<times> profile_data list" where
  "action fd table =
     (let nm = sanitizeText (name_field fd);
          ageValue = sanitizeText (age_field fd);
          ag = parseInt ageValue;
          errs = validate nm ageValue ag
      in if length errs \<noteq> 0
         then (BadRequest errs \<lparr>values_name = nm, values_age = ageValue\<rparr>, table)
         else (Redirect ''/app/profile'',
               table @ [\<lparr>name = nm, age = ag\<rparr>]))"

section \<open>Text truncation\<close>

text \<open>\<open>text.slice(0, stop)\<close>: a negative \<open>stop\<close> counts from the end of the string.\<close>

definition slice0 :: "string \<Rightarrow> int \<Rightarrow> string" where
  "slice0 text stop =
     (let len = int (length text);
          to = (if stop < 0 then max (len + stop) 0 else min stop len)
      in take (nat to) text)"

text \<open>
  \<open>truncate(text, length = 50)\<close>: an absent argument is \<open>None\<close>; \<open>!text\<close> holds of an absent
  text and of the empty string.
\<close>

definition truncate :: "string option \<Rightarrow> int option \<Rightarrow> string" where
  "truncate text lengthArg =
     (let len = (case lengthArg of None \<Rightarrow> 50 | Some l \<Rightarrow> l) in
      case text of
        None \<Rightarrow> []
      | Some t \<Rightarrow>
          if t = [] then []
          else if int (length t) > len then slice0 t len @ ''...'' else t)"

section \<open>Inputs of the examples\<close>

text \<open>Bodies of responses, thrown errors, forms and lists of orders used further down.\<close>

definition twoOrders :: json where
  "twoOrders = \<lparr>errors = None,
     data = Some \<lparr>orders = Some \<lparr>edges = Some
       [\<lparr>node = mkOrder [withDisplayStatus ''DELIVERED'']\<rparr>, \<lparr>node = mkOrder []\<rparr>]\<rparr>\<rparr>\<rparr>"

definition deniedBody :: json where
  "deniedBody = \<lparr>errors = Some [\<lparr>message = Some ''Throttled''\<rparr>,
       \<lparr>message = Some ''Access denied for Order object''\<rparr>],
     data = None\<rparr>"

definition networkError :: js_error where
  "networkError = \<lparr>error_name = ''FetchError'', error_message = Some ''socket hang up''\<rparr>"

definition throttledBody :: json where
  "throttledBody = \<lparr>errors = Some [\<lparr>message = Some ''Throttled''\<rparr>, \<lparr>message = None\<rparr>],
     data = None\<rparr>"

definition throttledWithOrders :: json where
  "throttledWithOrders =
     \<lparr>errors = Some [\<lparr>message = Some ''Throttled''\<rparr>, \<lparr>message = None\<rparr>],
      data = Some \<lparr>orders = Some \<lparr>edges = Some
        [\<lparr>node = mkOrder [withDisplayStatus ''DELIVERED'']\<rparr>,
         \<lparr>node = mkOrder [withStatus ''IN_TRANSIT'']\<rparr>,
         \<lparr>node = mkOrder []\<rparr>]\<rparr>\<rparr>\<rparr>"

definition annForm :: form where
  "annForm = \<lparr>name_field = Some '' Ann '', age_field = Some ''30 ''\<rparr>"

definition badForm :: form where
  "badForm = \<lparr>name_field = None, age_field = Some ''abc''\<rparr>"

text \<open>160 orders, 23 of them delivered, the others without a fulfillment.\<close>

definition orders160 :: "order list" where
  "orders160 = replicate 23 (mkOrder [withDisplayStatus ''DELIVERED'']) @ replicate 137 (mkOrder [])"

text \<open>Ten orders: 3 delivered, 2 fulfilled, 1 in transit, 4 without a fulfillment.\<close>

definition tenOrders :: "order list" where
  "tenOrders = replicate 3 (mkOrder [withDisplayStatus ''DELIVERED''])
     @ replicate 2 (mkOrder [withStatus ''FULFILLED''])
     @ [mkOrder [withDisplayStatus ''IN_TRANSIT'']]
     @ replicate 4 (mkOrder [])"

section \<open>Rounding to two decimals, as the specification words it\<close>

text \<open>
  Round half up at two decimal digits, on exact rationals: the nearest multiple of
  \<open>1/100\<close>, a tie going up. The Number that such a decimal denotes is its \<open>fl\<close>.
\<close>

definition roundHalfUp2 :: "rat \<Rightarrow> rat" where
  "roundHalfUp2 q = of_int \<lfloor>q * 100 + 1 / 2\<rfloor> / 100"

section \<open>Properties of the classifier\<close>

lemma primaryScan_None_iff: "primaryScan fs = None \<longleftrightarrow> (\<forall>f \<in> set fs. \<not> isTarget f)"
  by (induction fs) (auto simp: isTarget_def Let_def)

lemma primaryScan_first:
  "\<forall>g \<in> set pre. \<not> isTarget g \<Longrightarrow> isTarget f \<Longrightarrow> primaryScan (pre @ f # post) = effectiveStatus f"
  by (induction pre) (auto simp: isTarget_def Let_def)

lemma primaryScan_range:
  "primaryScan fs = Some l \<Longrightarrow> l = ''DELIVERED'' \<or> l = ''FULFILLED'' \<or> l = ''IN_TRANSIT''"
  by (induction fs) (auto simp: Let_def split: if_splits)

lemma primaryScan_None_no_fulfilled: "primaryScan fs = None \<Longrightarrow> \<not> hasFulfilled fs"
  by (induction fs) (auto simp: hasFulfilled_def Let_def split: if_splits)

lemma classify_unmatched:
  assumes "fulfillments ord = Some fs" and "primaryScan fs = None"
  shows "getOrderFulfillmentStatus ord = ''NOT_DELIVERED''"
  using assms primaryScan_None_no_fulfilled [of fs]
  by (simp add: getOrderFulfillmentStatus_def)

lemma classify_range:
  "getOrderFulfillmentStatus ord = ''DELIVERED'' \<or> getOrderFulfillmentStatus ord = ''NOT_DELIVERED''
   \<or> getOrderFulfillmentStatus ord = ''FULFILLED'' \<or> getOrderFulfillmentStatus ord = ''IN_TRANSIT''"
proof (cases "fulfillments ord")
  case None
  then show ?thesis by (simp add: getOrderFulfillmentStatus_def)
next
  case (Some fs)
  show ?thesis
  proof (cases "primaryScan fs")
    case None
    with Some show ?thesis by (simp add: classify_unmatched)
  next
    case (Some l)
    with \<open>fulfillments ord = Some fs\<close> primaryScan_range [OF Some] show ?thesis
      by (auto simp: getOrderFulfillmentStatus_def)
  qed
qed

text \<open>
  C1. When some fulfillment of the order has an effective status among DELIVERED,
  FULFILLED and IN_TRANSIT, the classifier returns the effective status of the first such
  fulfillment of the list: the fulfillments before it match none of the three, and the
  ones after it are not looked at. So a first fulfillment whose displayStatus is DELIVERED
  gives DELIVERED whatever follows, and the statuses IN_TRANSIT, FULFILLED in this order
  give IN_TRANSIT.
\<close>

theorem classifier_first_match_wins:
  "(fulfillments ord = Some (pre @ f # post) \<and> (\<forall>g \<in> set pre. \<not> isTarget g) \<and> isTarget f
      \<longrightarrow> Some (getOrderFulfillmentStatus ord) = effectiveStatus f)
   \<and> (fulfillments ord = Some (f1 # others) \<and> displayStatus f1 = Some ''DELIVERED''
      \<longrightarrow> getOrderFulfillmentStatus ord = ''DELIVERED'')
   \<and> (fulfillments ord = Some [g1, g2] \<and> effectiveStatus g1 = Some ''IN_TRANSIT''
        \<and> effectiveStatus g2 = Some ''FULFILLED''
      \<longrightarrow> getOrderFulfillmentStatus ord = ''IN_TRANSIT'')"
proof (intro conjI impI)
  assume h: "fulfillments ord = Some (pre @ f # post) \<and> (\<forall>g \<in> set pre. \<not> isTarget g) \<and> isTarget f"
  then have scan: "primaryScan (pre @ f # post) = effectiveStatus f"
    by (simp add: primaryScan_first)
  from h obtain l where "effectiveStatus f = Some l"
    by (auto simp: isTarget_def)
  with h scan show "Some (getOrderFulfillmentStatus ord) = effectiveStatus f"
    by (simp add: getOrderFulfillmentStatus_def)
next
  assume "fulfillments ord = Some (f1 # others) \<and> displayStatus f1 = Some ''DELIVERED''"
  then show "getOrderFulfillmentStatus ord = ''DELIVERED''"
    by (simp add: getOrderFulfillmentStatus_def effectiveStatus_def js_or_def)
next
  assume "fulfillments ord = Some [g1, g2] \<and> effectiveStatus g1 = Some ''IN_TRANSIT''
    \<and> effectiveStatus g2 = Some ''FULFILLED''"
  then show "getOrderFulfillmentStatus ord = ''IN_TRANSIT''"
    by (simp add: getOrderFulfillmentStatus_def)
qed

theorem classifier_first_match_wins_witness:
  "(fulfillments (mkOrder ([withStatus ''PENDING''] @ withStatus ''FULFILLED'' # [withDisplayStatus ''DELIVERED'']))
      = Some ([withStatus ''PENDING''] @ withStatus ''FULFILLED'' # [withDisplayStatus ''DELIVERED''])
    \<and> \<not> isTarget (withStatus ''PENDING'') \<and> isTarget (withStatus ''FULFILLED'')
    \<and> Some (getOrderFulfillmentStatus
         (mkOrder ([withStatus ''PENDING''] @ withStatus ''FULFILLED'' # [withDisplayStatus ''DELIVERED''])))
       = effectiveStatus (withStatus ''FULFILLED''))
   \<and> (fulfillments (mkOrder (withDisplayStatus ''DELIVERED'' # [withStatus ''IN_TRANSIT'']))
        = Some (withDisplayStatus ''DELIVERED'' # [withStatus ''IN_TRANSIT''])
      \<and> displayStatus (withDisplayStatus ''DELIVERED'') = Some ''DELIVERED''
      \<and> getOrderFulfillmentStatus (mkOrder (withDisplayStatus ''DELIVERED'' # [withStatus ''IN_TRANSIT'']))
        = ''DELIVERED'')
   \<and> (fulfillments (mkOrder [withStatus ''IN_TRANSIT'', withStatus ''FULFILLED''])
        = Some [withStatus ''IN_TRANSIT'', withStatus ''FULFILLED'']
      \<and> effectiveStatus (withStatus ''IN_TRANSIT'') = Some ''IN_TRANSIT''
      \<and> effectiveStatus (withStatus ''FULFILLED'') = Some ''FULFILLED''
      \<and> getOrderFulfillmentStatus (mkOrder [withStatus ''IN_TRANSIT'', withStatus ''FULFILLED''])
        = ''IN_TRANSIT'')"
  using classifier_first_match_wins
    [of "mkOrder ([withStatus ''PENDING''] @ withStatus ''FULFILLED'' # [withDisplayStatus ''DELIVERED''])"
        "[withStatus ''PENDING'']" "withStatus ''FULFILLED''" "[withDisplayStatus ''DELIVERED'']"]
    classifier_first_match_wins
    [of "mkOrder (withDisplayStatus ''DELIVERED'' # [withStatus ''IN_TRANSIT''])" _ _ _
        "withDisplayStatus ''DELIVERED''" "[withStatus ''IN_TRANSIT'']"]
    classifier_first_match_wins
    [of "mkOrder [withStatus ''IN_TRANSIT'', withStatus ''FULFILLED'']" _ _ _ _ _
        "withStatus ''IN_TRANSIT''" "withStatus ''FULFILLED''"]
  by (simp add: mkOrder_def withStatus_def withDisplayStatus_def isTarget_def effectiveStatus_def
      js_or_def)

text \<open>
  C2. The classifier is a total function whose result is one of the four labels
  DELIVERED, NOT_DELIVERED, FULFILLED, IN_TRANSIT. An order without fulfillments (the
  list absent or empty) is NOT_DELIVERED, and so is an order none of whose fulfillments
  has an effective status among the three the loop recognises.
\<close>

theorem classifier_total_four_labels:
  "getOrderFulfillmentStatus ord \<in> {''DELIVERED'', ''NOT_DELIVERED'', ''FULFILLED'', ''IN_TRANSIT''}
   \<and> (fulfillments ord = None \<or> fulfillments ord = Some []
      \<longrightarrow> getOrderFulfillmentStatus ord = ''NOT_DELIVERED'')
   \<and> (fulfillments ord = Some fs \<and> (\<forall>f \<in> set fs. \<not> isTarget f)
      \<longrightarrow> getOrderFulfillmentStatus ord = ''NOT_DELIVERED'')"
proof (intro conjI impI)
  show "getOrderFulfillmentStatus ord \<in> {''DELIVERED'', ''NOT_DELIVERED'', ''FULFILLED'', ''IN_TRANSIT''}"
    using classify_range [of ord] by auto
next
  assume "fulfillments ord = None \<or> fulfillments ord = Some []"
  then show "getOrderFulfillmentStatus ord = ''NOT_DELIVERED''"
    by (auto simp: getOrderFulfillmentStatus_def)
next
  assume "fulfillments ord = Some fs \<and> (\<forall>f \<in> set fs. \<not> isTarget f)"
  then show "getOrderFulfillmentStatus ord = ''NOT_DELIVERED''"
    by (simp add: classify_unmatched primaryScan_None_iff)
qed

theorem classifier_total_four_labels_witness:
  "getOrderFulfillmentStatus (mkOrder []) \<in> {''DELIVERED'', ''NOT_DELIVERED'', ''FULFILLED'', ''IN_TRANSIT''}
   \<and> (fulfillments (mkOrder []) = None \<or> fulfillments (mkOrder []) = Some [])
   \<and> getOrderFulfillmentStatus (mkOrder []) = ''NOT_DELIVERED''
   \<and> fulfillments (mkOrder [withStatus ''PENDING'', withDisplayStatus ''LABEL_PRINTED''])
       = Some [withStatus ''PENDING'', withDisplayStatus ''LABEL_PRINTED'']
   \<and> \<not> isTarget (withStatus ''PENDING'') \<and> \<not> isTarget (withDisplayStatus ''LABEL_PRINTED'')
   \<and> getOrderFulfillmentStatus (mkOrder [withStatus ''PENDING'', withDisplayStatus ''LABEL_PRINTED''])
       = ''NOT_DELIVERED''"
  using classifier_total_four_labels [of "mkOrder []" "[]"]
    classifier_total_four_labels
    [of "mkOrder [withStatus ''PENDING'', withDisplayStatus ''LABEL_PRINTED'']"
        "[withStatus ''PENDING'', withDisplayStatus ''LABEL_PRINTED'']"]
  by (simp add: mkOrder_def withStatus_def withDisplayStatus_def isTarget_def effectiveStatus_def
      js_or_def)

text \<open>
  C9. The second scan never decides the result. When the loop ends without returning,
  no fulfillment has the effective status FULFILLED, so \<open>hasFulfilled\<close> is false there; a
  list with such a fulfillment is settled by the loop; and the classifier is equal, on
  every order, to the function that leaves the second scan out.
\<close>

theorem secondary_scan_unreachable:
  "(primaryScan fs = None \<longrightarrow> \<not> hasFulfilled fs)
   \<and> (hasFulfilled fs \<longrightarrow> primaryScan fs \<noteq> None)
   \<and> getOrderFulfillmentStatus ord = getOrderFulfillmentStatus_noRescan ord"
proof (intro conjI impI)
  show "getOrderFulfillmentStatus ord = getOrderFulfillmentStatus_noRescan ord"
  proof (cases "fulfillments ord")
    case None
    then show ?thesis
      by (simp add: getOrderFulfillmentStatus_def getOrderFulfillmentStatus_noRescan_def)
  next
    case (Some gs)
    then show ?thesis
      using primaryScan_None_no_fulfilled [of gs]
      by (simp add: getOrderFulfillmentStatus_def getOrderFulfillmentStatus_noRescan_def
          split: option.splits)
  qed
next
  assume "hasFulfilled fs"
  then show "primaryScan fs \<noteq> None"
    using primaryScan_None_no_fulfilled [of fs] by blast
qed (simp add: primaryScan_None_no_fulfilled)

theorem secondary_scan_unreachable_witness:
  "primaryScan [withStatus ''PENDING''] = None \<and> \<not> hasFulfilled [withStatus ''PENDING'']
   \<and> hasFulfilled [withStatus ''PENDING'', withStatus ''FULFILLED'']
   \<and> primaryScan [withStatus ''PENDING'', withStatus ''FULFILLED''] \<noteq> None
   \<and> getOrderFulfillmentStatus (mkOrder [withStatus ''PENDING'', withStatus ''FULFILLED''])
     = getOrderFulfillmentStatus_noRescan (mkOrder [withStatus ''PENDING'', withStatus ''FULFILLED''])"
  using secondary_scan_unreachable [of "[withStatus ''PENDING'']"
      "mkOrder [withStatus ''PENDING'', withStatus ''FULFILLED'']"]
    secondary_scan_unreachable [of "[withStatus ''PENDING'', withStatus ''FULFILLED'']"
      "mkOrder [withStatus ''PENDING'', withStatus ''FULFILLED'']"]
  by (simp add: withStatus_def hasFulfilled_def effectiveStatus_def js_or_def)

text \<open>
  C3, as stated, at the order of its example: the first fulfillment has neither status,
  the second has the status FULFILLED and no displayStatus. The loop itself returns
  FULFILLED there, so it is not the case that the loop ends without a match and the second
  scan then finds the FULFILLED fulfillment.
\<close>

theorem rescan_example_counterexample:
  "\<not> (primaryScan [\<lparr>status = None, displayStatus = None\<rparr>, withStatus ''FULFILLED''] = None
      \<and> hasFulfilled [\<lparr>status = None, displayStatus = None\<rparr>, withStatus ''FULFILLED'']
      \<and> getOrderFulfillmentStatus
          (mkOrder [\<lparr>status = None, displayStatus = None\<rparr>, withStatus ''FULFILLED'']) = ''FULFILLED'')"
  by (simp add: withStatus_def effectiveStatus_def js_or_def)

text \<open>
  C3, amended. For every order whose fulfillments the loop passes without a match, the
  second scan finds no FULFILLED fulfillment and the classifier returns NOT_DELIVERED.
  An order with two fulfillments, the first without a recognised effective status and the
  second with the status FULFILLED and no displayStatus, classifies as FULFILLED, and
  it is the loop that returns it.
\<close>

theorem rescan_never_decides:
  "(fulfillments ord = Some fs \<and> primaryScan fs = None
      \<longrightarrow> \<not> hasFulfilled fs \<and> getOrderFulfillmentStatus ord = ''NOT_DELIVERED'')
   \<and> (fulfillments ord = Some [u, g] \<and> \<not> isTarget u \<and> displayStatus g = None
        \<and> status g = Some ''FULFILLED''
      \<longrightarrow> primaryScan [u, g] = Some ''FULFILLED''
          \<and> getOrderFulfillmentStatus ord = ''FULFILLED'')"
proof (intro conjI impI)
  assume h: "fulfillments ord = Some [u, g] \<and> \<not> isTarget u \<and> displayStatus g = None
    \<and> status g = Some ''FULFILLED''"
  then have g: "effectiveStatus g = Some ''FULFILLED''"
    by (simp add: effectiveStatus_def js_or_def)
  with h show scan: "primaryScan [u, g] = Some ''FULFILLED''"
    by (simp add: isTarget_def)
  with h show "getOrderFulfillmentStatus ord = ''FULFILLED''"
    by (simp add: getOrderFulfillmentStatus_def)
qed (simp_all add: primaryScan_None_no_fulfilled classify_unmatched)

theorem rescan_never_decides_witness:
  "fulfillments (mkOrder [withStatus ''PENDING'']) = Some [withStatus ''PENDING'']
   \<and> primaryScan [withStatus ''PENDING''] = None
   \<and> \<not> hasFulfilled [withStatus ''PENDING'']
   \<and> getOrderFulfillmentStatus (mkOrder [withStatus ''PENDING'']) = ''NOT_DELIVERED''
   \<and> fulfillments (mkOrder [\<lparr>status = None, displayStatus = None\<rparr>, withStatus ''FULFILLED''])
       = Some [\<lparr>status = None, displayStatus = None\<rparr>, withStatus ''FULFILLED'']
   \<and> \<not> isTarget \<lparr>status = None, displayStatus = None\<rparr>
   \<and> displayStatus (withStatus ''FULFILLED'') = None
   \<and> status (withStatus ''FULFILLED'') = Some ''FULFILLED''
   \<and> primaryScan [\<lparr>status = None, displayStatus = None\<rparr>, withStatus ''FULFILLED''] = Some ''FULFILLED''
   \<and> getOrderFulfillmentStatus
        (mkOrder [\<lparr>status = None, displayStatus = None\<rparr>, withStatus ''FULFILLED'']) = ''FULFILLED''"
  using rescan_never_decides [of "mkOrder [withStatus ''PENDING'']" "[withStatus ''PENDING'']"]
    rescan_never_decides
      [of "mkOrder [\<lparr>status = None, displayStatus = None\<rparr>, withStatus ''FULFILLED'']" _
          "\<lparr>status = None, displayStatus = None\<rparr>" "withStatus ''FULFILLED''"]
  by (simp add: mkOrder_def withStatus_def isTarget_def effectiveStatus_def js_or_def)

section \<open>Properties of the loader\<close>

lemma js_includes_sublist: "js_includes s sub \<longleftrightarrow> sublist sub s"
  by (induction s) (simp_all add: sublist_Cons_right)

lemma permissionMessage_iff:
  "permissionMessage m \<longleftrightarrow>
     (\<exists>s. m = Some s \<and> (sublist ''Access denied'' s \<or> sublist ''not approved'' s
        \<or> sublist ''Order object'' s))"
  by (cases m) (simp_all add: permissionMessage_def js_includes_sublist)

lemma countStatus_sum:
  assumes "s = ''DELIVERED'' \<or> s = ''NOT_DELIVERED'' \<or> s = ''FULFILLED'' \<or> s = ''IN_TRANSIT''"
  shows "DELIVERED (countStatus sc s) + NOT_DELIVERED (countStatus sc s)
     + FULFILLED (countStatus sc s) + IN_TRANSIT (countStatus sc s)
     = DELIVERED sc + NOT_DELIVERED sc + FULFILLED sc + IN_TRANSIT sc + 1"
  using assms by (auto simp: countStatus_def)

lemma groupOrders_sum:
  "DELIVERED (groupOrders sc os) + NOT_DELIVERED (groupOrders sc os)
     + FULFILLED (groupOrders sc os) + IN_TRANSIT (groupOrders sc os)
   = DELIVERED sc + NOT_DELIVERED sc + FULFILLED sc + IN_TRANSIT sc + length os"
proof (induction os arbitrary: sc)
  case Nil
  show ?case by simp
next
  case (Cons ord rest)
  have "DELIVERED (groupOrders sc (ord # rest)) + NOT_DELIVERED (groupOrders sc (ord # rest))
     + FULFILLED (groupOrders sc (ord # rest)) + IN_TRANSIT (groupOrders sc (ord # rest))
     = DELIVERED (countStatus sc (getOrderFulfillmentStatus ord))
     + NOT_DELIVERED (countStatus sc (getOrderFulfillmentStatus ord))
     + FULFILLED (countStatus sc (getOrderFulfillmentStatus ord))
     + IN_TRANSIT (countStatus sc (getOrderFulfillmentStatus ord)) + length rest"
    using Cons.IH [of "countStatus sc (getOrderFulfillmentStatus ord)"] by simp
  also have "\<dots> = DELIVERED sc + NOT_DELIVERED sc + FULFILLED sc + IN_TRANSIT sc + 1 + length rest"
    using countStatus_sum [OF classify_range [of ord], of sc] by simp
  finally show ?case by simp
qed

text \<open>Each bucket is the number of orders of its label.\<close>

lemma groupOrders_buckets:
  "DELIVERED (groupOrders sc os)
     = DELIVERED sc + length (filter (\<lambda>ord. getOrderFulfillmentStatus ord = ''DELIVERED'') os)
   \<and> NOT_DELIVERED (groupOrders sc os)
     = NOT_DELIVERED sc + length (filter (\<lambda>ord. getOrderFulfillmentStatus ord = ''NOT_DELIVERED'') os)
   \<and> FULFILLED (groupOrders sc os)
     = FULFILLED sc + length (filter (\<lambda>ord. getOrderFulfillmentStatus ord = ''FULFILLED'') os)
   \<and> IN_TRANSIT (groupOrders sc os)
     = IN_TRANSIT sc + length (filter (\<lambda>ord. getOrderFulfillmentStatus ord = ''IN_TRANSIT'') os)"
  by (induction os arbitrary: sc) (simp_all add: countStatus_def)

lemma summarize_fields:
  "totalOrders (summarize os) = length os"
  "statusCounts (summarize os) = groupOrders initialCounts os"
  "error (summarize os) = None"
  by (simp_all add: summarize_def Let_def)

lemma summarize_percentages:
  "percentages (summarize os) =
     \<lparr>delivered = percentOf (DELIVERED (statusCounts (summarize os))) (totalOrders (summarize os)),
      notDelivered = percentOf (NOT_DELIVERED (statusCounts (summarize os))
          + FULFILLED (statusCounts (summarize os)) + IN_TRANSIT (statusCounts (summarize os)))
        (totalOrders (summarize os)),
      byStatus =
        \<lparr>DELIVERED = percentOf (DELIVERED (statusCounts (summarize os))) (totalOrders (summarize os)),
         NOT_DELIVERED = percentOf (NOT_DELIVERED (statusCounts (summarize os))) (totalOrders (summarize os)),
         FULFILLED = percentOf (FULFILLED (statusCounts (summarize os))) (totalOrders (summarize os)),
         IN_TRANSIT = percentOf (IN_TRANSIT (statusCounts (summarize os))) (totalOrders (summarize os))\<rparr>\<rparr>"
  by (simp add: summarize_def Let_def deliveredCount_def notDeliveredCount_def)

text \<open>
  C4. For every list of fetched orders, the four buckets of statusCounts add up to
  totalOrders, which is the number of orders; deliveredCount is the DELIVERED bucket,
  notDeliveredCount is the sum of the three other buckets, and the two add up to
  totalOrders. The same holds of every overview the loader returns.
\<close>

theorem statusCounts_add_up:
  "DELIVERED (statusCounts (summarize os)) + NOT_DELIVERED (statusCounts (summarize os))
     + FULFILLED (statusCounts (summarize os)) + IN_TRANSIT (statusCounts (summarize os))
     = totalOrders (summarize os)
   \<and> totalOrders (summarize os) = length os
   \<and> deliveredCount (statusCounts (summarize os)) = DELIVERED (statusCounts (summarize os))
   \<and> notDeliveredCount (statusCounts (summarize os))
     = NOT_DELIVERED (statusCounts (summarize os)) + FULFILLED (statusCounts (summarize os))
       + IN_TRANSIT (statusCounts (summarize os))
   \<and> deliveredCount (statusCounts (summarize os)) + notDeliveredCount (statusCounts (summarize os))
     = totalOrders (summarize os)
   \<and> (loader (Resolves j) = Inr (OverviewResult r)
      \<longrightarrow> r = summarize (ordersOf j)
        \<and> DELIVERED (statusCounts r) + NOT_DELIVERED (statusCounts r)
          + FULFILLED (statusCounts r) + IN_TRANSIT (statusCounts r) = totalOrders r)"
proof -
  have total: "DELIVERED (statusCounts (summarize xs)) + NOT_DELIVERED (statusCounts (summarize xs))
     + FULFILLED (statusCounts (summarize xs)) + IN_TRANSIT (statusCounts (summarize xs))
     = totalOrders (summarize xs)" for xs
    using groupOrders_sum [of initialCounts xs]
    by (simp add: summarize_fields initialCounts_def)
  have r: "r = summarize (ordersOf j)" if "loader (Resolves j) = Inr (OverviewResult r)"
    using that by (simp add: loader_def split: if_splits)
  have "loader (Resolves j) = Inr (OverviewResult r)
      \<longrightarrow> r = summarize (ordersOf j)
        \<and> DELIVERED (statusCounts r) + NOT_DELIVERED (statusCounts r)
          + FULFILLED (statusCounts r) + IN_TRANSIT (statusCounts r) = totalOrders r"
    using r total [of "ordersOf j"] by blast
  moreover have "totalOrders (summarize os) = length os"
    by (simp add: summarize_fields)
  moreover have "deliveredCount (statusCounts (summarize os))
      + notDeliveredCount (statusCounts (summarize os)) = totalOrders (summarize os)"
    using total [of os] by (simp add: deliveredCount_def notDeliveredCount_def)
  ultimately show ?thesis
    using total [of os] by (simp add: deliveredCount_def notDeliveredCount_def)
qed

theorem statusCounts_add_up_witness:
  "loader (Resolves twoOrders) = Inr (OverviewResult (summarize (ordersOf twoOrders)))
   \<and> DELIVERED (statusCounts (summarize (ordersOf twoOrders)))
     + NOT_DELIVERED (statusCounts (summarize (ordersOf twoOrders)))
     + FULFILLED (statusCounts (summarize (ordersOf twoOrders)))
     + IN_TRANSIT (statusCounts (summarize (ordersOf twoOrders)))
     = totalOrders (summarize (ordersOf twoOrders))
   \<and> totalOrders (summarize (ordersOf twoOrders)) = 2
   \<and> DELIVERED (statusCounts (summarize (ordersOf twoOrders))) = 1"
proof -
  have l: "loader (Resolves twoOrders) = Inr (OverviewResult (summarize (ordersOf twoOrders)))"
    by (simp add: loader_def twoOrders_def)
  have d: "DELIVERED (statusCounts (summarize (ordersOf twoOrders))) = 1"
    by (simp add: summarize_fields ordersOf_def twoOrders_def initialCounts_def countStatus_def
        getOrderFulfillmentStatus_def mkOrder_def withDisplayStatus_def effectiveStatus_def js_or_def)
  have n: "totalOrders (summarize (ordersOf twoOrders)) = 2"
    by (simp add: summarize_fields ordersOf_def twoOrders_def)
  from l d n statusCounts_add_up [of "ordersOf twoOrders" twoOrders "summarize (ordersOf twoOrders)"]
  show ?thesis by simp
qed

text \<open>
  C7. When the body of the response carries an error list in which some message
  contains "Access denied", "not approved" or "Order object", the loader returns the
  result with error "access_denied" and the reinstall message, and throws nothing. When
  the fetch throws an error whose message contains none of the three (or that has no
  message), the loader throws that same error.
\<close>

theorem loader_access_denied:
  "(errors j = Some es \<and> e \<in> set es \<and> message e = Some m
      \<and> (sublist ''Access denied'' m \<or> sublist ''not approved'' m \<or> sublist ''Order object'' m)
      \<longrightarrow> loader (Resolves j) = Inr (AccessDeniedResult ''access_denied'' reinstallMessage))
   \<and> ((\<forall>m. error_message err = Some m
          \<longrightarrow> \<not> sublist ''Access denied'' m \<and> \<not> sublist ''not approved'' m
            \<and> \<not> sublist ''Order object'' m)
      \<longrightarrow> loader (Throws err) = Inl err)"
proof (intro conjI impI)
  assume h: "errors j = Some es \<and> e \<in> set es \<and> message e = Some m
      \<and> (sublist ''Access denied'' m \<or> sublist ''not approved'' m \<or> sublist ''Order object'' m)"
  then have "permissionMessage (message e)"
    by (simp add: permissionMessage_iff)
  with h have "\<exists>x \<in> set es. permissionMessage (message x)"
    by blast
  then have "accessDenied es"
    by (simp add: accessDenied_def list_ex_iff)
  with h show "loader (Resolves j) = Inr (AccessDeniedResult ''access_denied'' reinstallMessage)"
    by (simp add: loader_def)
next
  assume "\<forall>m. error_message err = Some m
      \<longrightarrow> \<not> sublist ''Access denied'' m \<and> \<not> sublist ''not approved'' m
        \<and> \<not> sublist ''Order object'' m"
  then have "\<not> permissionMessage (error_message err)"
    by (auto simp: permissionMessage_iff)
  then show "loader (Throws err) = Inl err"
    by (simp add: loader_def)
qed

lemma no_permission_text:
  "\<not> sublist ''Access denied'' ''socket hang up''"
  "\<not> sublist ''not approved'' ''socket hang up''"
  "\<not> sublist ''Order object'' ''socket hang up''"
  "\<not> sublist ''Access denied'' ''Throttled''"
  "\<not> sublist ''not approved'' ''Throttled''"
  "\<not> sublist ''Order object'' ''Throttled''"
  by (simp_all add: js_includes_sublist [symmetric])

theorem loader_access_denied_witness:
  "errors deniedBody = Some [\<lparr>message = Some ''Throttled''\<rparr>,
       \<lparr>message = Some ''Access denied for Order object''\<rparr>]
   \<and> sublist ''Access denied'' ''Access denied for Order object''
   \<and> loader (Resolves deniedBody) = Inr (AccessDeniedResult ''access_denied'' reinstallMessage)
   \<and> error_message networkError = Some ''socket hang up''
   \<and> \<not> sublist ''Access denied'' ''socket hang up''
   \<and> \<not> sublist ''not approved'' ''socket hang up''
   \<and> \<not> sublist ''Order object'' ''socket hang up''
   \<and> loader (Throws networkError) = Inl networkError"
proof -
  have s: "sublist ''Access denied'' ''Access denied for Order object''"
    by (simp add: js_includes_sublist [symmetric])
  have e: "errors deniedBody = Some [\<lparr>message = Some ''Throttled''\<rparr>,
       \<lparr>message = Some ''Access denied for Order object''\<rparr>]"
    by (simp add: deniedBody_def)
  have m: "error_message networkError = Some ''socket hang up''"
    by (simp add: networkError_def)
  from s e m no_permission_text
    loader_access_denied [of deniedBody
      "[\<lparr>message = Some ''Throttled''\<rparr>, \<lparr>message = Some ''Access denied for Order object''\<rparr>]"
      "\<lparr>message = Some ''Access denied for Order object''\<rparr>" "''Access denied for Order object''"
      networkError]
  show ?thesis by simp
qed

text \<open>
  C10. When the body carries an error list none of whose messages contains one of the
  three permission texts, the loader throws nothing and does not answer access_denied: it
  returns an overview, with error null, of whatever orders the data holds. With the
  edges present, totalOrders is their number, each of the four counts is the number of
  orders the classifier gives that label, and the percentages are those of these counts.
  When the data is absent, the overview has totalOrders 0, the four counts 0, every
  percentage 0 and error null.
\<close>

theorem loader_other_errors_aggregate:
  "errors j = Some es
   \<and> (\<forall>e \<in> set es. \<forall>m. message e = Some m
        \<longrightarrow> \<not> sublist ''Access denied'' m \<and> \<not> sublist ''not approved'' m
          \<and> \<not> sublist ''Order object'' m)
   \<longrightarrow> (\<exists>r. loader (Resolves j) = Inr (OverviewResult r)
          \<and> r = summarize (ordersOf j)
          \<and> error r = None
          \<and> (\<forall>d c eds. data j = Some d \<and> orders d = Some c \<and> edges c = Some eds
                \<longrightarrow> totalOrders r = length eds
                  \<and> DELIVERED (statusCounts r)
                    = length (filter (\<lambda>e. getOrderFulfillmentStatus (node e) = ''DELIVERED'') eds)
                  \<and> NOT_DELIVERED (statusCounts r)
                    = length (filter (\<lambda>e. getOrderFulfillmentStatus (node e) = ''NOT_DELIVERED'') eds)
                  \<and> FULFILLED (statusCounts r)
                    = length (filter (\<lambda>e. getOrderFulfillmentStatus (node e) = ''FULFILLED'') eds)
                  \<and> IN_TRANSIT (statusCounts r)
                    = length (filter (\<lambda>e. getOrderFulfillmentStatus (node e) = ''IN_TRANSIT'') eds)
                  \<and> percentages r =
                      \<lparr>delivered = percentOf (DELIVERED (statusCounts r)) (length eds),
                       notDelivered = percentOf (NOT_DELIVERED (statusCounts r)
                           + FULFILLED (statusCounts r) + IN_TRANSIT (statusCounts r)) (length eds),
                       byStatus =
                         \<lparr>DELIVERED = percentOf (DELIVERED (statusCounts r)) (length eds),
                          NOT_DELIVERED = percentOf (NOT_DELIVERED (statusCounts r)) (length eds),
                          FULFILLED = percentOf (FULFILLED (statusCounts r)) (length eds),
                          IN_TRANSIT = percentOf (IN_TRANSIT (statusCounts r)) (length eds)\<rparr>\<rparr>)
          \<and> (data j = None
              \<longrightarrow> r = \<lparr>totalOrders = 0,
                        statusCounts = \<lparr>DELIVERED = 0, NOT_DELIVERED = 0, FULFILLED = 0, IN_TRANSIT = 0\<rparr>,
                        percentages = \<lparr>delivered = 0, notDelivered = 0,
                          byStatus = \<lparr>DELIVERED = 0, NOT_DELIVERED = 0, FULFILLED = 0, IN_TRANSIT = 0\<rparr>\<rparr>,
                        error = None\<rparr>))"
proof (intro impI)
  assume h: "errors j = Some es
   \<and> (\<forall>e \<in> set es. \<forall>m. message e = Some m
        \<longrightarrow> \<not> sublist ''Access denied'' m \<and> \<not> sublist ''not approved'' m
          \<and> \<not> sublist ''Order object'' m)"
  define r where "r = summarize (ordersOf j)"
  from h have "\<not> accessDenied es"
    by (auto simp: accessDenied_def list_ex_iff permissionMessage_iff)
  with h have l: "loader (Resolves j) = Inr (OverviewResult r)"
    by (simp add: loader_def r_def)
  have e: "error r = None"
    by (simp add: r_def summarize_fields)
  have z: "r = \<lparr>totalOrders = 0,
       statusCounts = \<lparr>DELIVERED = 0, NOT_DELIVERED = 0, FULFILLED = 0, IN_TRANSIT = 0\<rparr>,
       percentages = \<lparr>delivered = 0, notDelivered = 0,
         byStatus = \<lparr>DELIVERED = 0, NOT_DELIVERED = 0, FULFILLED = 0, IN_TRANSIT = 0\<rparr>\<rparr>,
       error = None\<rparr>" if "data j = None"
    using that by (simp add: r_def summarize_def ordersOf_def initialCounts_def percentOf_def)
  have agg: "totalOrders r = length eds
      \<and> DELIVERED (statusCounts r)
        = length (filter (\<lambda>e. getOrderFulfillmentStatus (node e) = ''DELIVERED'') eds)
      \<and> NOT_DELIVERED (statusCounts r)
        = length (filter (\<lambda>e. getOrderFulfillmentStatus (node e) = ''NOT_DELIVERED'') eds)
      \<and> FULFILLED (statusCounts r)
        = length (filter (\<lambda>e. getOrderFulfillmentStatus (node e) = ''FULFILLED'') eds)
      \<and> IN_TRANSIT (statusCounts r)
        = length (filter (\<lambda>e. getOrderFulfillmentStatus (node e) = ''IN_TRANSIT'') eds)
      \<and> percentages r =
          \<lparr>delivered = percentOf (DELIVERED (statusCounts r)) (length eds),
           notDelivered = percentOf (NOT_DELIVERED (statusCounts r)
               + FULFILLED (statusCounts r) + IN_TRANSIT (statusCounts r)) (length eds),
           byStatus =
             \<lparr>DELIVERED = percentOf (DELIVERED (statusCounts r)) (length eds),
              NOT_DELIVERED = percentOf (NOT_DELIVERED (statusCounts r)) (length eds),
              FULFILLED = percentOf (FULFILLED (statusCounts r)) (length eds),
              IN_TRANSIT = percentOf (IN_TRANSIT (statusCounts r)) (length eds)\<rparr>\<rparr>"
    if d: "data j = Some d \<and> orders d = Some c \<and> edges c = Some eds" for d c eds
  proof -
    from d have o: "ordersOf j = map node eds"
      by (simp add: ordersOf_def)
    have n: "totalOrders r = length eds"
      by (simp add: r_def summarize_fields o)
    have b: "statusCounts r = groupOrders initialCounts (map node eds)"
      by (simp add: r_def summarize_fields o)
    have p: "percentages r =
          \<lparr>delivered = percentOf (DELIVERED (statusCounts r)) (totalOrders r),
           notDelivered = percentOf (NOT_DELIVERED (statusCounts r)
               + FULFILLED (statusCounts r) + IN_TRANSIT (statusCounts r)) (totalOrders r),
           byStatus =
             \<lparr>DELIVERED = percentOf (DELIVERED (statusCounts r)) (totalOrders r),
              NOT_DELIVERED = percentOf (NOT_DELIVERED (statusCounts r)) (totalOrders r),
              FULFILLED = percentOf (FULFILLED (statusCounts r)) (totalOrders r),
              IN_TRANSIT = percentOf (IN_TRANSIT (statusCounts r)) (totalOrders r)\<rparr>\<rparr>"
      unfolding r_def by (rule summarize_percentages)
    have p': "percentages r =
          \<lparr>delivered = percentOf (DELIVERED (statusCounts r)) (length eds),
           notDelivered = percentOf (NOT_DELIVERED (statusCounts r)
               + FULFILLED (statusCounts r) + IN_TRANSIT (statusCounts r)) (length eds),
           byStatus =
             \<lparr>DELIVERED = percentOf (DELIVERED (statusCounts r)) (length eds),
              NOT_DELIVERED = percentOf (NOT_DELIVERED (statusCounts r)) (length eds),
              FULFILLED = percentOf (FULFILLED (statusCounts r)) (length eds),
              IN_TRANSIT = percentOf (IN_TRANSIT (statusCounts r)) (length eds)\<rparr>\<rparr>"
      using p by (simp only: n)
    have bk: "DELIVERED (statusCounts r)
          = length (filter (\<lambda>e. getOrderFulfillmentStatus (node e) = ''DELIVERED'') eds)"
      "NOT_DELIVERED (statusCounts r)
          = length (filter (\<lambda>e. getOrderFulfillmentStatus (node e) = ''NOT_DELIVERED'') eds)"
      "FULFILLED (statusCounts r)
          = length (filter (\<lambda>e. getOrderFulfillmentStatus (node e) = ''FULFILLED'') eds)"
      "IN_TRANSIT (statusCounts r)
          = length (filter (\<lambda>e. getOrderFulfillmentStatus (node e) = ''IN_TRANSIT'') eds)"
      using groupOrders_buckets [of initialCounts "map node eds"]
      by (simp_all add: b initialCounts_def filter_map o_def)
    from n bk p' show ?thesis by blast
  qed
  show "\<exists>r. loader (Resolves j) = Inr (OverviewResult r)
          \<and> r = summarize (ordersOf j)
          \<and> error r = None
          \<and> (\<forall>d c eds. data j = Some d \<and> orders d = Some c \<and> edges c = Some eds
                \<longrightarrow> totalOrders r = length eds
                  \<and> DELIVERED (statusCounts r)
                    = length (filter (\<lambda>e. getOrderFulfillmentStatus (node e) = ''DELIVERED'') eds)
                  \<and> NOT_DELIVERED (statusCounts r)
                    = length (filter (\<lambda>e. getOrderFulfillmentStatus (node e) = ''NOT_DELIVERED'') eds)
                  \<and> FULFILLED (statusCounts r)
                    = length (filter (\<lambda>e. getOrderFulfillmentStatus (node e) = ''FULFILLED'') eds)
                  \<and> IN_TRANSIT (statusCounts r)
                    = length (filter (\<lambda>e. getOrderFulfillmentStatus (node e) = ''IN_TRANSIT'') eds)
                  \<and> percentages r =
                      \<lparr>delivered = percentOf (DELIVERED (statusCounts r)) (length eds),
                       notDelivered = percentOf (NOT_DELIVERED (statusCounts r)
                           + FULFILLED (statusCounts r) + IN_TRANSIT (statusCounts r)) (length eds),
                       byStatus =
                         \<lparr>DELIVERED = percentOf (DELIVERED (statusCounts r)) (length eds),
                          NOT_DELIVERED = percentOf (NOT_DELIVERED (statusCounts r)) (length eds),
                          FULFILLED = percentOf (FULFILLED (statusCounts r)) (length eds),
                          IN_TRANSIT = percentOf (IN_TRANSIT (statusCounts r)) (length eds)\<rparr>\<rparr>)
          \<and> (data j = None
              \<longrightarrow> r = \<lparr>totalOrders = 0,
                        statusCounts = \<lparr>DELIVERED = 0, NOT_DELIVERED = 0, FULFILLED = 0, IN_TRANSIT = 0\<rparr>,
                        percentages = \<lparr>delivered = 0, notDelivered = 0,
                          byStatus = \<lparr>DELIVERED = 0, NOT_DELIVERED = 0, FULFILLED = 0, IN_TRANSIT = 0\<rparr>\<rparr>,
                        error = None\<rparr>)"
    (is "\<exists>x. ?P x")
  proof (rule exI)
    from l r_def e z agg show "?P r"
      by (intro conjI allI impI) (blast+)
  qed
qed

theorem loader_other_errors_aggregate_witness:
  "errors throttledWithOrders = Some [\<lparr>message = Some ''Throttled''\<rparr>, \<lparr>message = None\<rparr>]
   \<and> \<not> sublist ''Access denied'' ''Throttled''
   \<and> \<not> sublist ''not approved'' ''Throttled''
   \<and> \<not> sublist ''Order object'' ''Throttled''
   \<and> (\<exists>r. loader (Resolves throttledWithOrders) = Inr (OverviewResult r)
        \<and> error r = None
        \<and> totalOrders r = 3
        \<and> statusCounts r = \<lparr>DELIVERED = 1, NOT_DELIVERED = 1, FULFILLED = 0, IN_TRANSIT = 1\<rparr>
        \<and> percentages r =
            \<lparr>delivered = percentOf 1 3, notDelivered = percentOf 2 3,
             byStatus = \<lparr>DELIVERED = percentOf 1 3, NOT_DELIVERED = percentOf 1 3,
                         FULFILLED = percentOf 0 3, IN_TRANSIT = percentOf 1 3\<rparr>\<rparr>)
   \<and> errors throttledBody = Some [\<lparr>message = Some ''Throttled''\<rparr>, \<lparr>message = None\<rparr>]
   \<and> data throttledBody = None
   \<and> loader (Resolves throttledBody) = Inr (OverviewResult
        \<lparr>totalOrders = 0,
         statusCounts = \<lparr>DELIVERED = 0, NOT_DELIVERED = 0, FULFILLED = 0, IN_TRANSIT = 0\<rparr>,
         percentages = \<lparr>delivered = 0, notDelivered = 0,
           byStatus = \<lparr>DELIVERED = 0, NOT_DELIVERED = 0, FULFILLED = 0, IN_TRANSIT = 0\<rparr>\<rparr>,
         error = None\<rparr>)"
proof -
  let ?es = "[\<lparr>message = Some ''Throttled''\<rparr>, \<lparr>message = None\<rparr>]"
  let ?eds = "[\<lparr>node = mkOrder [withDisplayStatus ''DELIVERED'']\<rparr>,
         \<lparr>node = mkOrder [withStatus ''IN_TRANSIT'']\<rparr>,
         \<lparr>node = mkOrder []\<rparr>]"
  have e1: "errors throttledWithOrders = Some ?es"
    and d1: "data throttledWithOrders = Some \<lparr>orders = Some \<lparr>edges = Some ?eds\<rparr>\<rparr>"
    and e2: "errors throttledBody = Some ?es"
    and d2: "data throttledBody = None"
    by (simp_all add: throttledWithOrders_def throttledBody_def)
  have q: "\<forall>x \<in> set ?es. \<forall>m. message x = Some m
        \<longrightarrow> \<not> sublist ''Access denied'' m \<and> \<not> sublist ''not approved'' m
          \<and> \<not> sublist ''Order object'' m"
    using no_permission_text by simp
  have c: "getOrderFulfillmentStatus (mkOrder [withDisplayStatus ''DELIVERED'']) = ''DELIVERED''"
    "getOrderFulfillmentStatus (mkOrder [withStatus ''IN_TRANSIT'']) = ''IN_TRANSIT''"
    "getOrderFulfillmentStatus (mkOrder []) = ''NOT_DELIVERED''"
    by (simp_all add: getOrderFulfillmentStatus_def mkOrder_def withDisplayStatus_def
        withStatus_def effectiveStatus_def js_or_def)
  from loader_other_errors_aggregate [of throttledWithOrders ?es] e1 q
  obtain r where r: "loader (Resolves throttledWithOrders) = Inr (OverviewResult r)"
    "error r = None"
    and all: "\<forall>d c eds. data throttledWithOrders = Some d \<and> orders d = Some c \<and> edges c = Some eds
                \<longrightarrow> totalOrders r = length eds
                  \<and> DELIVERED (statusCounts r)
                    = length (filter (\<lambda>e. getOrderFulfillmentStatus (node e) = ''DELIVERED'') eds)
                  \<and> NOT_DELIVERED (statusCounts r)
                    = length (filter (\<lambda>e. getOrderFulfillmentStatus (node e) = ''NOT_DELIVERED'') eds)
                  \<and> FULFILLED (statusCounts r)
                    = length (filter (\<lambda>e. getOrderFulfillmentStatus (node e) = ''FULFILLED'') eds)
                  \<and> IN_TRANSIT (statusCounts r)
                    = length (filter (\<lambda>e. getOrderFulfillmentStatus (node e) = ''IN_TRANSIT'') eds)
                  \<and> percentages r =
                      \<lparr>delivered = percentOf (DELIVERED (statusCounts r)) (length eds),
                       notDelivered = percentOf (NOT_DELIVERED (statusCounts r)
                           + FULFILLED (statusCounts r) + IN_TRANSIT (statusCounts r)) (length eds),
                       byStatus =
                         \<lparr>DELIVERED = percentOf (DELIVERED (statusCounts r)) (length eds),
                          NOT_DELIVERED = percentOf (NOT_DELIVERED (statusCounts r)) (length eds),
                          FULFILLED = percentOf (FULFILLED (statusCounts r)) (length eds),
                          IN_TRANSIT = percentOf (IN_TRANSIT (statusCounts r)) (length eds)\<rparr>\<rparr>"
    by blast
  have prem: "data throttledWithOrders = Some \<lparr>orders = Some \<lparr>edges = Some ?eds\<rparr>\<rparr>
      \<and> orders \<lparr>orders = Some \<lparr>edges = Some ?eds\<rparr>\<rparr> = Some \<lparr>edges = Some ?eds\<rparr>
      \<and> edges \<lparr>edges = Some ?eds\<rparr> = Some ?eds"
    using d1 by simp
  from all [rule_format, OF prem]
  have raw: "totalOrders r = length ?eds"
    "DELIVERED (statusCounts r)
       = length (filter (\<lambda>e. getOrderFulfillmentStatus (node e) = ''DELIVERED'') ?eds)"
    "NOT_DELIVERED (statusCounts r)
       = length (filter (\<lambda>e. getOrderFulfillmentStatus (node e) = ''NOT_DELIVERED'') ?eds)"
    "FULFILLED (statusCounts r)
       = length (filter (\<lambda>e. getOrderFulfillmentStatus (node e) = ''FULFILLED'') ?eds)"
    "IN_TRANSIT (statusCounts r)
       = length (filter (\<lambda>e. getOrderFulfillmentStatus (node e) = ''IN_TRANSIT'') ?eds)"
    "percentages r =
        \<lparr>delivered = percentOf (DELIVERED (statusCounts r)) (length ?eds),
         notDelivered = percentOf (NOT_DELIVERED (statusCounts r)
             + FULFILLED (statusCounts r) + IN_TRANSIT (statusCounts r)) (length ?eds),
         byStatus =
           \<lparr>DELIVERED = percentOf (DELIVERED (statusCounts r)) (length ?eds),
            NOT_DELIVERED = percentOf (NOT_DELIVERED (statusCounts r)) (length ?eds),
            FULFILLED = percentOf (FULFILLED (statusCounts r)) (length ?eds),
            IN_TRANSIT = percentOf (IN_TRANSIT (statusCounts r)) (length ?eds)\<rparr>\<rparr>"
    by blast+
  have len: "length ?eds = 3"
    by simp
  have n: "totalOrders r = 3"
    using raw(1) by simp
  have k: "DELIVERED (statusCounts r) = 1" "NOT_DELIVERED (statusCounts r) = 1"
    "FULFILLED (statusCounts r) = 0" "IN_TRANSIT (statusCounts r) = 1"
    using raw(2-5) by (simp_all add: c)
  have k2: "(1::nat) + 0 + 1 = 2"
    by simp
  have pc: "percentages r =
            \<lparr>delivered = percentOf 1 3, notDelivered = percentOf 2 3,
             byStatus = \<lparr>DELIVERED = percentOf 1 3, NOT_DELIVERED = percentOf 1 3,
                         FULFILLED = percentOf 0 3, IN_TRANSIT = percentOf 1 3\<rparr>\<rparr>"
    using raw(6) by (simp only: k len k2)
  from k have sc: "statusCounts r = \<lparr>DELIVERED = 1, NOT_DELIVERED = 1, FULFILLED = 0, IN_TRANSIT = 1\<rparr>"
    by (cases "statusCounts r") simp
  have hyp: "errors throttledBody = Some ?es
      \<and> (\<forall>x \<in> set ?es. \<forall>m. message x = Some m
        \<longrightarrow> \<not> sublist ''Access denied'' m \<and> \<not> sublist ''not approved'' m
          \<and> \<not> sublist ''Order object'' m)"
    using e2 q by (rule conjI)
  from loader_other_errors_aggregate [of throttledBody ?es, THEN mp, OF hyp]
  obtain r0 where r0: "loader (Resolves throttledBody) = Inr (OverviewResult r0)"
    and z0: "data throttledBody = None
      \<longrightarrow> r0 = \<lparr>totalOrders = 0,
         statusCounts = \<lparr>DELIVERED = 0, NOT_DELIVERED = 0, FULFILLED = 0, IN_TRANSIT = 0\<rparr>,
         percentages = \<lparr>delivered = 0, notDelivered = 0,
           byStatus = \<lparr>DELIVERED = 0, NOT_DELIVERED = 0, FULFILLED = 0, IN_TRANSIT = 0\<rparr>\<rparr>,
         error = None\<rparr>"
    by (elim exE conjE) (rule that)
  from r0 z0 d2
  have z: "loader (Resolves throttledBody) = Inr (OverviewResult
        \<lparr>totalOrders = 0,
         statusCounts = \<lparr>DELIVERED = 0, NOT_DELIVERED = 0, FULFILLED = 0, IN_TRANSIT = 0\<rparr>,
         percentages = \<lparr>delivered = 0, notDelivered = 0,
           byStatus = \<lparr>DELIVERED = 0, NOT_DELIVERED = 0, FULFILLED = 0, IN_TRANSIT = 0\<rparr>\<rparr>,
         error = None\<rparr>)"
    by simp
  from e1 e2 d2 no_permission_text r n pc sc z show ?thesis by blast
qed

section \<open>Properties of truncate\<close>

lemma slice0_take: "0 \<le> n \<Longrightarrow> slice0 t n = take (nat n) t"
  by (simp add: slice0_def Let_def min_def)

text \<open>
  C8. For a string and a maximum length (a number that is not negative), truncate returns
  the string unchanged when it has at most that many characters, and its first
  \<open>length\<close> characters followed by three dots otherwise; without the second argument the
  maximum is 50; an absent text and the empty string give the empty string. So
  truncate("abcdefghij", 5) is "abcde...", truncate("", 5) is "" and truncate(undefined)
  is "".
\<close>

theorem truncate_spec:
  "(0 \<le> n \<longrightarrow> truncate (Some s) (Some n)
        = (if int (length s) \<le> n then s else take (nat n) s @ ''...''))
   \<and> truncate (Some s) None = (if length s \<le> 50 then s else take 50 s @ ''...'')
   \<and> truncate None l = []
   \<and> truncate (Some []) l = []
   \<and> truncate (Some ''abcdefghij'') (Some 5) = ''abcde...''
   \<and> truncate (Some []) (Some 5) = []
   \<and> truncate None None = []"
proof (intro conjI impI)
  assume "0 \<le> n"
  then show "truncate (Some s) (Some n)
        = (if int (length s) \<le> n then s else take (nat n) s @ ''...'')"
    by (auto simp: truncate_def slice0_take)
next
  show "truncate (Some s) None = (if length s \<le> 50 then s else take 50 s @ ''...'')"
    by (auto simp: truncate_def slice0_take)
next
  show "truncate (Some ''abcdefghij'') (Some 5) = ''abcde...''"
    by (simp add: truncate_def slice0_take)
qed (simp_all add: truncate_def)

theorem truncate_spec_witness:
  "(0::int) \<le> 3 \<and> truncate (Some ''Snowboard'') (Some 3) = ''Sno...''
   \<and> (0::int) \<le> 9 \<and> truncate (Some ''Snowboard'') (Some 9) = ''Snowboard''"
  using truncate_spec [of 3 "''Snowboard''"] truncate_spec [of 9 "''Snowboard''"]
  by simp

text \<open>A negative second argument, which no caller passes, cuts from the end of the text.\<close>

lemma truncate_negative: "truncate (Some ''abc'') (Some (- 1)) = ''ab...''"
  by (simp add: truncate_def slice0_def)

section \<open>Properties of the rounding of Numbers\<close>

lemma ilog2_bounds:
  assumes "0 < x"
  shows "2 powi ilog2 x \<le> x \<and> x < 2 powi (ilog2 x + 1)"
proof (cases "1 \<le> x")
  case True
  define n where "n = \<lfloor>x\<rfloor>"
  have n: "0 < n" using True by (simp add: n_def)
  define k where "k = bitlen n - 1"
  from bitlen_bounds [OF n] have b: "2 ^ nat k \<le> n" "n < 2 ^ nat (bitlen n)"
    by (simp_all add: k_def)
  have k0: "0 \<le> k" using n by (simp add: k_def bitlen_alt_def)
  have nx: "of_int n \<le> x" by (simp add: n_def)
  have "(of_int (2 ^ nat k :: int) :: rat) \<le> of_int n" using b(1) by (simp only: of_int_le_iff)
  then have "(2::rat) ^ nat k \<le> of_int n" by simp
  with nx have lo: "(2::rat) ^ nat k \<le> x" by (rule order_trans [rotated])
  have xn: "x < of_int (n + 1)" unfolding n_def by linarith
  have "n + 1 \<le> 2 ^ nat (bitlen n)" using b(2) by simp
  then have "(of_int (n + 1) :: rat) \<le> of_int (2 ^ nat (bitlen n))" by (simp only: of_int_le_iff)
  then have "(of_int (n + 1) :: rat) \<le> 2 ^ nat (bitlen n)" by simp
  with xn have "x < (2::rat) ^ nat (bitlen n)" by (rule less_le_trans)
  moreover have "nat (bitlen n) = nat (k + 1)" by (simp add: k_def)
  ultimately have hi: "x < (2::rat) ^ nat (k + 1)" by simp
  have "ilog2 x = k" using True by (simp add: ilog2_def k_def n_def)
  with lo hi k0 show ?thesis by (simp add: power_int_def)
next
  case False
  define y where "y = 1 / x"
  have y: "1 < y" using False assms by (simp add: y_def)
  define m where "m = \<lceil>y\<rceil> - 1"
  have m: "0 < m" using y unfolding m_def by linarith
  have my: "of_int m < y" "y \<le> of_int (m + 1)" unfolding m_def by linarith+
  define b where "b = bitlen m"
  from bitlen_bounds [OF m] have bb: "2 ^ nat (b - 1) \<le> m" "m < 2 ^ nat b"
    by (simp_all add: b_def)
  have b1: "1 \<le> b" using m by (simp add: b_def bitlen_alt_def)
  have "m + 1 \<le> 2 ^ nat b" using bb(2) by simp
  then have "(of_int (m + 1) :: rat) \<le> of_int (2 ^ nat b)" by (simp only: of_int_le_iff)
  then have "(of_int (m + 1) :: rat) \<le> 2 ^ nat b" by simp
  with my(2) have yhi: "y \<le> 2 ^ nat b" by (rule order_trans)
  have "(of_int (2 ^ nat (b - 1)) :: rat) \<le> of_int m" using bb(1) by (simp only: of_int_le_iff)
  then have "(2::rat) ^ nat (b - 1) \<le> of_int m" by simp
  then have ylo: "2 ^ nat (b - 1) < y" using my(1) by (rule le_less_trans)
  have il: "ilog2 x = - b" using False by (simp add: ilog2_def b_def m_def y_def)
  have "1 / 2 ^ nat b \<le> x"
    using yhi assms by (simp add: y_def field_simps)
  moreover have "x < 1 / 2 ^ nat (b - 1)"
    using ylo assms by (simp add: y_def field_simps)
  moreover have "(2::rat) powi (- b) = 1 / 2 ^ nat b"
    using b1 by (simp add: power_int_def field_simps)
  moreover have "(2::rat) powi (- b + 1) = 1 / 2 ^ nat (b - 1)"
    using b1 by (auto simp add: power_int_def field_simps nat_diff_distrib)
  ultimately show ?thesis using il by simp
qed

lemma roundHalfEven_error: "\<bar>of_int (roundHalfEven y) - y\<bar> \<le> 1 / 2"
proof -
  have "of_int \<lfloor>y\<rfloor> \<le> y" "y < of_int \<lfloor>y\<rfloor> + 1" by linarith+
  then show ?thesis
    by (auto simp: roundHalfEven_def Let_def abs_le_iff)
qed

lemma roundHalfEven_nearest: "\<bar>of_int (roundHalfEven y) - y\<bar> \<le> \<bar>of_int k - y\<bar>"
proof -
  define f where "f = \<lfloor>y\<rfloor>"
  define r where "r = y - of_int f"
  have y: "y = of_int f + r" "0 \<le> r" "r < 1"
    unfolding r_def f_def by linarith+
  have rhe: "roundHalfEven y = f \<and> r \<le> 1 / 2 \<or> roundHalfEven y = f + 1 \<and> 1 / 2 \<le> r"
    by (auto simp: roundHalfEven_def Let_def f_def r_def)
  consider "k \<le> f" | "f + 1 \<le> k" by linarith
  then show ?thesis
  proof cases
    case 1
    then have "(of_int k :: rat) \<le> of_int f" by (simp only: of_int_le_iff)
    with y rhe show ?thesis by auto
  next
    case 2
    then have "(of_int (f + 1) :: rat) \<le> of_int k" by (simp only: of_int_le_iff)
    then have "(of_int f :: rat) + 1 \<le> of_int k" by simp
    with y rhe show ?thesis by auto
  qed
qed

lemma roundHalfEven_tie: "y - of_int \<lfloor>y\<rfloor> = 1 / 2 \<Longrightarrow> even (roundHalfEven y)"
  by (simp add: roundHalfEven_def Let_def)

lemma fl_error: "\<bar>fl x - x\<bar> \<le> \<bar>x\<bar> / 2 ^ 53"
proof (cases "x = 0")
  case True
  then show ?thesis by (simp add: fl_def)
next
  case False
  define e where "e = ilog2 \<bar>x\<bar> - 52"
  define s :: rat where "s = 2 powi e"
  have s: "0 < s" by (simp add: s_def)
  have flx: "fl x = of_int (roundHalfEven (x / s)) * s"
    using False by (simp add: fl_def e_def s_def Let_def)
  have "fl x - x = (of_int (roundHalfEven (x / s)) - x / s) * s"
    using s by (simp add: flx field_simps)
  then have "\<bar>fl x - x\<bar> = \<bar>of_int (roundHalfEven (x / s)) - x / s\<bar> * s"
    using s by (simp add: abs_mult)
  also have "\<dots> \<le> 1 / 2 * s"
    using roundHalfEven_error [of "x / s"] s by (intro mult_right_mono) simp_all
  also have "1 / 2 * s = 2 powi (ilog2 \<bar>x\<bar>) / 2 ^ 53"
  proof -
    have "(2::rat) powi (ilog2 \<bar>x\<bar>) = 2 powi (e + 52)" by (simp add: e_def)
    also have "\<dots> = s * 2 ^ 52" by (simp add: power_int_add s_def)
    finally show ?thesis by simp
  qed
  also have "\<dots> \<le> \<bar>x\<bar> / 2 ^ 53"
    using ilog2_bounds [of "\<bar>x\<bar>"] False by (simp add: divide_right_mono)
  finally show ?thesis .
qed

text \<open>
  \<open>fl x\<close> is a multiple of \<open>2 powi (ilog2 \<bar>x\<bar> - 52)\<close>, the spacing of the Numbers of the
  magnitude of \<open>x\<close>, with a significand of at most 53 bits, and no multiple is nearer to \<open>x\<close>.
\<close>

lemma fl_grid:
  assumes "x \<noteq> 0"
  shows "\<exists>m. fl x = of_int m * 2 powi (ilog2 \<bar>x\<bar> - 52) \<and> \<bar>m\<bar> \<le> 2 ^ 53
     \<and> (\<forall>k. \<bar>fl x - x\<bar> \<le> \<bar>of_int k * 2 powi (ilog2 \<bar>x\<bar> - 52) - x\<bar>)"
proof -
  define s :: rat where "s = 2 powi (ilog2 \<bar>x\<bar> - 52)"
  define m where "m = roundHalfEven (x / s)"
  have s: "0 < s" by (simp add: s_def)
  have flx: "fl x = of_int m * s"
    using assms by (simp add: fl_def s_def m_def Let_def)
  have near: "\<bar>fl x - x\<bar> \<le> \<bar>of_int k * s - x\<bar>" for k
  proof -
    have "\<bar>fl x - x\<bar> = \<bar>of_int m - x / s\<bar> * s"
      using s by (simp add: flx abs_mult [symmetric] field_simps)
    also have "\<dots> \<le> \<bar>of_int k - x / s\<bar> * s"
      using roundHalfEven_nearest [of "x / s" k] s unfolding m_def
      by (intro mult_right_mono) simp_all
    also have "\<dots> = \<bar>of_int k * s - x\<bar>"
      using s by (simp add: abs_mult [symmetric] field_simps)
    finally show ?thesis .
  qed
  have "\<bar>x\<bar> < 2 powi (ilog2 \<bar>x\<bar> + 1)"
    using ilog2_bounds [of "\<bar>x\<bar>"] assms by simp
  also have "(2::rat) powi (ilog2 \<bar>x\<bar> + 1) = s * 2 ^ 53"
  proof -
    have "ilog2 \<bar>x\<bar> + 1 = (ilog2 \<bar>x\<bar> - 52) + 53" by simp
    then have "(2::rat) powi (ilog2 \<bar>x\<bar> + 1) = 2 powi ((ilog2 \<bar>x\<bar> - 52) + 53)"
      by (rule arg_cong)
    also have "\<dots> = s * 2 ^ 53" unfolding s_def by (subst power_int_add) simp_all
    finally show ?thesis .
  qed
  finally have "\<bar>x / s\<bar> < 2 ^ 53" using s by (simp add: field_simps)
  then have b: "- (2 ^ 53) < x / s" "x / s < 2 ^ 53"
    unfolding abs_less_iff by linarith+
  have "\<bar>of_int m - x / s\<bar> \<le> \<bar>of_int (2 ^ 53) - x / s\<bar>"
    "\<bar>of_int m - x / s\<bar> \<le> \<bar>of_int (- (2 ^ 53)) - x / s\<bar>"
    unfolding m_def by (rule roundHalfEven_nearest)+
  with b have "(of_int m :: rat) \<le> 2 ^ 53" "- (2 ^ 53) \<le> (of_int m :: rat)"
    by simp_all
  then have "(of_int m :: rat) \<le> of_int (2 ^ 53)" "(of_int (- (2 ^ 53)) :: rat) \<le> of_int m"
    by simp_all
  then have "m \<le> 2 ^ 53" "- (2 ^ 53) \<le> m" by (simp_all only: of_int_le_iff)
  then have "\<bar>m\<bar> \<le> 2 ^ 53" by simp
  with flx near show ?thesis unfolding s_def by blast
qed

lemma fl_between:
  assumes "0 \<le> y"
  shows "y - y / 2 ^ 53 \<le> fl y \<and> fl y \<le> y + y / 2 ^ 53"
proof -
  have a: "\<bar>fl y - y\<bar> \<le> y / 2 ^ 53"
    using fl_error [of y] unfolding abs_of_nonneg [OF assms] .
  have "fl y - y \<le> y / 2 ^ 53"
    using abs_ge_self a by (rule order_trans)
  moreover have "- (fl y - y) \<le> y / 2 ^ 53"
    using abs_ge_minus_self a by (rule order_trans)
  ultimately show ?thesis by linarith
qed

lemma fl_nonneg: "0 \<le> y \<Longrightarrow> 0 \<le> fl y"
proof -
  assume y: "0 \<le> y"
  then have "y / 2 ^ 53 \<le> y" by (simp add: field_simps)
  with fl_between [OF y] show ?thesis by linarith
qed

text \<open>Three roundings in a row: the quotient, then twice the product with 100.\<close>

lemma three_roundings:
  assumes a: "0 \<le> a"
  shows "\<bar>fl (fl (fl a * 100) * 100) - a * 10000\<bar> \<le> a * 10000 / 2 ^ 51"
proof -
  define u :: rat where "u = 1 / 2 ^ 53"
  define x1 where "x1 = fl a"
  define x2 where "x2 = fl (x1 * 100)"
  define x3 where "x3 = fl (x2 * 100)"
  have u: "0 < u" "u < 1" by (simp_all add: u_def)
  have b: "y * (1 - u) \<le> fl y \<and> fl y \<le> y * (1 + u)" if "0 \<le> y" for y
    using fl_between [OF that] by (simp add: u_def algebra_simps)
  have x1: "a * (1 - u) \<le> x1" "x1 \<le> a * (1 + u)" "0 \<le> x1"
    using b [OF a] fl_nonneg [OF a] by (simp_all add: x1_def)
  have x2: "x1 * 100 * (1 - u) \<le> x2" "x2 \<le> x1 * 100 * (1 + u)" "0 \<le> x2"
    using b [of "x1 * 100"] fl_nonneg [of "x1 * 100"] x1(3) by (simp_all add: x2_def)
  have x3: "x2 * 100 * (1 - u) \<le> x3" "x3 \<le> x2 * 100 * (1 + u)"
    using b [of "x2 * 100"] x2(3) by (simp_all add: x3_def)
  have up2: "x2 \<le> a * 100 * (1 + u) ^ 2"
  proof -
    have "x1 * 100 * (1 + u) \<le> a * (1 + u) * 100 * (1 + u)"
      using x1(2) u by (intro mult_right_mono) simp_all
    with x2(2) show ?thesis by (simp add: power2_eq_square algebra_simps)
  qed
  have up3: "x3 \<le> a * 10000 * (1 + u) ^ 3"
  proof -
    have "x2 * 100 * (1 + u) \<le> a * 100 * (1 + u) ^ 2 * 100 * (1 + u)"
      using up2 u by (intro mult_right_mono) simp_all
    with x3(2) show ?thesis by (simp add: power3_eq_cube power2_eq_square algebra_simps)
  qed
  have lo2: "a * 100 * (1 - u) ^ 2 \<le> x2"
  proof -
    have "a * (1 - u) * 100 * (1 - u) \<le> x1 * 100 * (1 - u)"
      using x1(1) u by (intro mult_right_mono) simp_all
    with x2(1) show ?thesis by (simp add: power2_eq_square algebra_simps)
  qed
  have lo3: "a * 10000 * (1 - u) ^ 3 \<le> x3"
  proof -
    have "a * 100 * (1 - u) ^ 2 * 100 * (1 - u) \<le> x2 * 100 * (1 - u)"
      using lo2 u by (intro mult_right_mono) simp_all
    with x3(1) show ?thesis by (simp add: power3_eq_cube power2_eq_square algebra_simps)
  qed
  have c1: "(1 + u) ^ 3 \<le> 1 + 1 / 2 ^ 51"
    unfolding u_def by (simp add: power3_eq_cube field_simps)
  have c2: "1 - 1 / 2 ^ 51 \<le> (1 - u) ^ 3"
    unfolding u_def by (simp add: power3_eq_cube field_simps)
  have "a * 10000 * (1 + u) ^ 3 \<le> a * 10000 * (1 + 1 / 2 ^ 51)"
    using c1 a by (intro mult_left_mono) simp_all
  with up3 have hi: "x3 \<le> a * 10000 + a * 10000 / 2 ^ 51" by (simp add: algebra_simps)
  have "a * 10000 * (1 - 1 / 2 ^ 51) \<le> a * 10000 * (1 - u) ^ 3"
    using c2 a by (intro mult_left_mono) simp_all
  with lo3 have lo: "a * 10000 - a * 10000 / 2 ^ 51 \<le> x3" by (simp add: algebra_simps)
  from lo hi have "\<bar>x3 - a * 10000\<bar> \<le> a * 10000 / 2 ^ 51"
    unfolding abs_le_iff by linarith
  then show ?thesis
    unfolding x3_def x2_def x1_def .
qed


text \<open>
  The product the loader rounds is within \<open>10000 / 2^51\<close> of the exact
  \<open>X = count * 10000 / total\<close>, and \<open>X + 1/2\<close> is a multiple of \<open>1 / (2 * total)\<close>: unless
  it is an integer, it is too far from one for the error to carry \<open>Math.round\<close> across.
\<close>

lemma round_after_roundings:
  fixes c t :: nat
  assumes t: "0 < t" and ct: "c \<le> t" and bound: "t < 2 ^ 32"
  defines "X \<equiv> (of_nat c * 10000 / of_nat t :: rat)"
    and "x3 \<equiv> fl (fl (fl (of_nat c / of_nat t) * 100) * 100)"
  shows "(X - of_int \<lfloor>X\<rfloor> \<noteq> 1 / 2 \<longrightarrow> \<lfloor>x3 + 1 / 2\<rfloor> = \<lfloor>X + 1 / 2\<rfloor>)
    \<and> (\<lfloor>x3 + 1 / 2\<rfloor> = \<lfloor>X + 1 / 2\<rfloor> \<or> \<lfloor>x3 + 1 / 2\<rfloor> = \<lfloor>X + 1 / 2\<rfloor> - 1)"
proof -
  define T :: rat where "T = of_nat t"
  define a :: rat where "a = of_nat c / T"
  have T: "0 < T" "T < 2 ^ 32"
  proof -
    show "0 < T" using t by (simp add: T_def)
    have "(of_nat t :: rat) < of_nat (2 ^ 32)" using bound by (simp only: of_nat_less_iff)
    then show "T < 2 ^ 32" by (simp add: T_def)
  qed
  have a: "0 \<le> a" "a \<le> 1"
  proof -
    show "0 \<le> a" using T by (simp add: a_def)
    have "(of_nat c :: rat) \<le> of_nat t" using ct by (simp only: of_nat_le_iff)
    then show "a \<le> 1" using T by (simp add: a_def T_def)
  qed
  have Xa: "X = a * 10000" by (simp add: X_def a_def T_def)
  have "\<bar>x3 - X\<bar> \<le> a * 10000 / 2 ^ 51"
    using three_roundings [OF a(1)] by (simp add: x3_def Xa a_def T_def)
  also have "\<dots> \<le> 10000 / 2 ^ 51" using a(2) by simp
  also have "\<dots> < 1 / (2 * 2 ^ 32)" by simp
  also have "\<dots> < 1 / (2 * T)" using T by (simp add: field_simps)
  finally have close: "\<bar>x3 - X\<bar> < 1 / (2 * T)" .
  define R where "R = \<lfloor>X + 1 / 2\<rfloor>"
  define d where "d = X + 1 / 2 - of_int R"
  have d: "0 \<le> d" "d < 1" unfolding d_def R_def by linarith+
  define k :: int where "k = 20000 * int c + int t - 2 * int t * R"
  have kd: "of_int k = d * (2 * T)"
    using T by (simp add: k_def d_def X_def T_def field_simps)
  have cases: "d = 0 \<or> (1 / (2 * T) \<le> d \<and> d \<le> 1 - 1 / (2 * T))"
  proof (cases "k = 0")
    case True
    with kd T show ?thesis by simp
  next
    case False
    have "0 \<le> d * (2 * T)" using d(1) T by simp
    then have "(0::rat) \<le> of_int k" by (simp only: kd)
    then have "0 \<le> k" by (simp only: of_int_0_le_iff)
    with False have k1: "1 \<le> k" by simp
    have "d * (2 * T) < 1 * (2 * T)" using d(2) T by (intro mult_strict_right_mono) simp_all
    then have "(of_int k :: rat) < of_int (2 * int t)" by (simp add: kd T_def)
    then have "k < 2 * int t" by (simp only: of_int_less_iff)
    then have k2: "k \<le> 2 * int t - 1" by simp
    have "(of_int 1 :: rat) \<le> of_int k" using k1 by (simp only: of_int_le_iff)
    then have lo: "1 \<le> d * (2 * T)" by (simp add: kd)
    have "(of_int k :: rat) \<le> of_int (2 * int t - 1)" using k2 by (simp only: of_int_le_iff)
    then have hi: "d * (2 * T) \<le> 2 * T - 1" by (simp add: kd T_def)
    from lo hi T show ?thesis by (simp add: field_simps)
  qed
  have half: "1 / (2 * T) \<le> 1 / 2"
  proof -
    have "1 \<le> t" using t by simp
    then have "(of_nat 1 :: rat) \<le> of_nat t" by (simp only: of_nat_le_iff)
    then show ?thesis using T by (simp add: T_def field_simps)
  qed
  from close have c2: "X - 1 / (2 * T) < x3" "x3 < X + 1 / (2 * T)"
    unfolding abs_less_iff by linarith+
  have tie: "X - of_int \<lfloor>X\<rfloor> = 1 / 2" if "d = 0"
  proof -
    from that have "X = of_int (R - 1) + 1 / 2" by (simp add: d_def)
    moreover from this have "\<lfloor>X\<rfloor> = R - 1" by linarith
    ultimately show ?thesis by simp
  qed
  have exact: "\<lfloor>x3 + 1 / 2\<rfloor> = R" if "d \<noteq> 0"
  proof -
    from that cases have "1 / (2 * T) \<le> d" "d \<le> 1 - 1 / (2 * T)" by simp_all
    with c2 have "of_int R \<le> x3 + 1 / 2" "x3 + 1 / 2 < of_int R + 1"
      unfolding d_def by linarith+
    then show ?thesis by linarith
  qed
  have near: "\<lfloor>x3 + 1 / 2\<rfloor> = R \<or> \<lfloor>x3 + 1 / 2\<rfloor> = R - 1" if "d = 0"
  proof -
    from that c2 half have "of_int R - 1 \<le> x3 + 1 / 2" "x3 + 1 / 2 < of_int R + 1"
      unfolding d_def by linarith+
    then show ?thesis by linarith
  qed
  from tie exact near show ?thesis unfolding R_def by blast
qed


text \<open>The Number written \<open>0.1\<close>, and the small integers, which are Numbers themselves.\<close>

lemma fl_examples:
  "fl (1 / 10) = 3602879701896397 / 36028797018963968"
  "fl 30 = 30" "fl 70 = 70" "fl 100 = 100"
  "fl (1437 / 100) = 8089590830664253 / 562949953421312"
  "fl (1438 / 100) = 8095220330198467 / 562949953421312"
  by code_simp+

section \<open>Properties of the percentages\<close>

lemma percentOf_unfold:
  "0 < tot \<Longrightarrow> percentOf cnt tot
     = fl (of_int \<lfloor>fl (fl (fl (of_nat cnt / of_nat tot) * 100) * 100) + 1 / 2\<rfloor> / 100)"
  by (simp add: percentOf_def js_div_def js_mul_def Math_round_def)

lemma percentOf_near_half_up:
  assumes "0 < tot" and "cnt \<le> tot" and "tot < 2 ^ 32"
  shows "((of_nat cnt * 10000 / of_nat tot :: rat) - of_int \<lfloor>of_nat cnt * 10000 / of_nat tot :: rat\<rfloor> \<noteq> 1 / 2
      \<longrightarrow> percentOf cnt tot = fl (roundHalfUp2 (of_nat cnt / of_nat tot * 100)))
    \<and> (percentOf cnt tot = fl (roundHalfUp2 (of_nat cnt / of_nat tot * 100))
      \<or> percentOf cnt tot = fl (roundHalfUp2 (of_nat cnt / of_nat tot * 100) - 1 / 100))"
proof -
  define X :: rat where "X = of_nat cnt * 10000 / of_nat tot"
  define r where "r = \<lfloor>fl (fl (fl (of_nat cnt / of_nat tot) * 100) * 100) + 1 / 2\<rfloor>"
  have p: "percentOf cnt tot = fl (of_int r / 100)"
    using assms(1) by (simp add: percentOf_unfold r_def)
  have "of_nat cnt / of_nat tot * 100 * 100 = X"
    by (simp add: X_def)
  then have h: "roundHalfUp2 (of_nat cnt / of_nat tot * 100) = of_int \<lfloor>X + 1 / 2\<rfloor> / 100"
    by (simp only: roundHalfUp2_def)
  have less: "of_int \<lfloor>X + 1 / 2\<rfloor> / 100 - 1 / 100 = (of_int (\<lfloor>X + 1 / 2\<rfloor> - 1) / 100 :: rat)"
    by (simp add: field_simps)
  from round_after_roundings [OF assms]
  have "(X - of_int \<lfloor>X\<rfloor> \<noteq> 1 / 2 \<longrightarrow> r = \<lfloor>X + 1 / 2\<rfloor>)
      \<and> (r = \<lfloor>X + 1 / 2\<rfloor> \<or> r = \<lfloor>X + 1 / 2\<rfloor> - 1)"
    unfolding X_def r_def .
  then show ?thesis
    unfolding p h less X_def [symmetric] by auto
qed

lemma orders160_counts:
  "length orders160 = 160"
  "DELIVERED (groupOrders initialCounts orders160) = 23"
proof -
  show "length orders160 = 160" by (simp add: orders160_def)
  have d: "getOrderFulfillmentStatus (mkOrder [withDisplayStatus ''DELIVERED'']) = ''DELIVERED''"
    and n: "getOrderFulfillmentStatus (mkOrder []) = ''NOT_DELIVERED''"
    by (simp_all add: getOrderFulfillmentStatus_def mkOrder_def withDisplayStatus_def
        effectiveStatus_def js_or_def)
  show "DELIVERED (groupOrders initialCounts orders160) = 23"
    using groupOrders_buckets [of initialCounts orders160]
    by (simp add: orders160_def initialCounts_def d n)
qed

lemma percentOf_23_160: "percentOf 23 160 = fl (1437 / 100)"
  by code_simp

lemma percentOf_tenths:
  "percentOf 3 10 = 30" "percentOf 7 10 = 70" "percentOf 4 10 = 40"
  "percentOf 2 10 = 20" "percentOf (Suc 0) 10 = 10"
  by code_simp+

lemma tenOrders_counts:
  "length tenOrders = 10"
  "groupOrders initialCounts tenOrders
     = \<lparr>DELIVERED = 3, NOT_DELIVERED = 4, FULFILLED = 2, IN_TRANSIT = 1\<rparr>"
  by (simp_all add: tenOrders_def initialCounts_def countStatus_def getOrderFulfillmentStatus_def
      mkOrder_def withDisplayStatus_def withStatus_def effectiveStatus_def js_or_def
      hasFulfilled_def numeral_3_eq_3 numeral_2_eq_2 eval_nat_numeral)

text \<open>
  C5, as stated, at 160 orders of which 23 are delivered: 23 / 160 is 14.375 percent, which
  rounds half up to 14.38, and the loader's percentage is the Number 14.37: the product
  \<open>(23 / 160) * 100 * 100\<close> is, in binary floating point, just below 1437.5.
\<close>

theorem percentages_half_up_counterexample:
  "totalOrders (summarize orders160) = 160
   \<and> DELIVERED (statusCounts (summarize orders160)) = 23
   \<and> delivered (percentages (summarize orders160)) = fl (1437 / 100)
   \<and> DELIVERED (byStatus (percentages (summarize orders160))) = fl (1437 / 100)
   \<and> roundHalfUp2 (of_nat (DELIVERED (statusCounts (summarize orders160)))
        / of_nat (totalOrders (summarize orders160)) * 100) = 1438 / 100
   \<and> delivered (percentages (summarize orders160))
       \<noteq> fl (roundHalfUp2 (of_nat (DELIVERED (statusCounts (summarize orders160)))
            / of_nat (totalOrders (summarize orders160)) * 100))
   \<and> delivered (percentages (summarize orders160))
       \<noteq> roundHalfUp2 (of_nat (DELIVERED (statusCounts (summarize orders160)))
            / of_nat (totalOrders (summarize orders160)) * 100)"
proof -
  have n: "totalOrders (summarize orders160) = 160"
    and d: "DELIVERED (statusCounts (summarize orders160)) = 23"
    by (simp_all add: summarize_fields orders160_counts)
  have p: "delivered (percentages (summarize orders160)) = fl (1437 / 100)"
    "DELIVERED (byStatus (percentages (summarize orders160))) = fl (1437 / 100)"
    by (simp_all add: summarize_percentages n d percentOf_23_160)
  have r: "roundHalfUp2 (of_nat (DELIVERED (statusCounts (summarize orders160)))
        / of_nat (totalOrders (summarize orders160)) * 100) = 1438 / 100"
    by (simp add: n d roundHalfUp2_def)
  have "fl (1437 / 100) \<noteq> fl (1438 / 100)" "fl (1437 / 100) \<noteq> 1438 / 100"
    by code_simp+
  with n d p r show ?thesis by (simp only: simp_thms)
qed

text \<open>
  C5, amended. Each of the six percentages of the loader is \<open>percentOf\<close> of its count
  (a bucket, deliveredCount or notDeliveredCount, none above totalOrders) and of
  totalOrders. It is 0 when totalOrders is 0. When totalOrders is positive (and below
  \<open>2^32\<close>, as the length of an array is), it is the Number of round-half-up(count /
  totalOrders * 100) at 2 decimal digits, unless count / totalOrders * 10000 lies exactly
  halfway between two integers: there it is that Number or the one of the value 0.01
  below. For 3 delivered, 4 not delivered, 2 fulfilled and 1 in transit of 10 orders,
  delivered is 30, notDelivered is 70 and the four byStatus percentages add up to 100.
\<close>

theorem percentages_half_up_off_ties:
  "percentOf cnt 0 = 0
   \<and> (0 < tot \<and> cnt \<le> tot \<and> tot < 2 ^ 32
      \<longrightarrow> ((of_nat cnt * 10000 / of_nat tot :: rat)
              - of_int \<lfloor>of_nat cnt * 10000 / of_nat tot :: rat\<rfloor> \<noteq> 1 / 2
            \<longrightarrow> percentOf cnt tot = fl (roundHalfUp2 (of_nat cnt / of_nat tot * 100)))
          \<and> (percentOf cnt tot = fl (roundHalfUp2 (of_nat cnt / of_nat tot * 100))
            \<or> percentOf cnt tot = fl (roundHalfUp2 (of_nat cnt / of_nat tot * 100) - 1 / 100)))
   \<and> percentages (summarize os) =
       \<lparr>delivered = percentOf (DELIVERED (statusCounts (summarize os))) (totalOrders (summarize os)),
        notDelivered = percentOf (NOT_DELIVERED (statusCounts (summarize os))
            + FULFILLED (statusCounts (summarize os)) + IN_TRANSIT (statusCounts (summarize os)))
          (totalOrders (summarize os)),
        byStatus =
          \<lparr>DELIVERED = percentOf (DELIVERED (statusCounts (summarize os))) (totalOrders (summarize os)),
           NOT_DELIVERED = percentOf (NOT_DELIVERED (statusCounts (summarize os))) (totalOrders (summarize os)),
           FULFILLED = percentOf (FULFILLED (statusCounts (summarize os))) (totalOrders (summarize os)),
           IN_TRANSIT = percentOf (IN_TRANSIT (statusCounts (summarize os))) (totalOrders (summarize os))\<rparr>\<rparr>
   \<and> DELIVERED (statusCounts (summarize os)) + NOT_DELIVERED (statusCounts (summarize os))
       + FULFILLED (statusCounts (summarize os)) + IN_TRANSIT (statusCounts (summarize os))
       = totalOrders (summarize os)
   \<and> statusCounts (summarize tenOrders)
       = \<lparr>DELIVERED = 3, NOT_DELIVERED = 4, FULFILLED = 2, IN_TRANSIT = 1\<rparr>
   \<and> percentages (summarize tenOrders)
       = \<lparr>delivered = 30, notDelivered = 70,
          byStatus = \<lparr>DELIVERED = 30, NOT_DELIVERED = 40, FULFILLED = 20, IN_TRANSIT = 10\<rparr>\<rparr>
   \<and> DELIVERED (byStatus (percentages (summarize tenOrders)))
       + NOT_DELIVERED (byStatus (percentages (summarize tenOrders)))
       + FULFILLED (byStatus (percentages (summarize tenOrders)))
       + IN_TRANSIT (byStatus (percentages (summarize tenOrders))) = 100"
proof -
  have zero: "percentOf cnt 0 = 0"
    by (simp add: percentOf_def)
  have sum: "DELIVERED (statusCounts (summarize os)) + NOT_DELIVERED (statusCounts (summarize os))
       + FULFILLED (statusCounts (summarize os)) + IN_TRANSIT (statusCounts (summarize os))
       = totalOrders (summarize os)"
    using groupOrders_sum [of initialCounts os]
    by (simp add: summarize_fields initialCounts_def)
  have ten: "totalOrders (summarize tenOrders) = 10"
    "statusCounts (summarize tenOrders)
       = \<lparr>DELIVERED = 3, NOT_DELIVERED = 4, FULFILLED = 2, IN_TRANSIT = 1\<rparr>"
    by (simp_all add: summarize_fields tenOrders_counts)
  have pct: "percentages (summarize tenOrders)
       = \<lparr>delivered = 30, notDelivered = 70,
          byStatus = \<lparr>DELIVERED = 30, NOT_DELIVERED = 40, FULFILLED = 20, IN_TRANSIT = 10\<rparr>\<rparr>"
    by (simp add: summarize_percentages ten percentOf_tenths)
  have total: "DELIVERED (byStatus (percentages (summarize tenOrders)))
       + NOT_DELIVERED (byStatus (percentages (summarize tenOrders)))
       + FULFILLED (byStatus (percentages (summarize tenOrders)))
       + IN_TRANSIT (byStatus (percentages (summarize tenOrders))) = 100"
    by (simp add: pct)
  show ?thesis
    using zero sum ten(2) pct total summarize_percentages [of os]
      percentOf_near_half_up [of tot cnt]
    by (intro conjI impI) blast+
qed

theorem percentages_half_up_off_ties_witness:
  "(0::nat) < 10 \<and> (3::nat) \<le> 10 \<and> (10::nat) < 2 ^ 32
   \<and> (of_nat 3 * 10000 / of_nat 10 :: rat) - of_int \<lfloor>of_nat 3 * 10000 / of_nat 10 :: rat\<rfloor> \<noteq> 1 / 2
   \<and> percentOf 3 10 = fl (roundHalfUp2 (of_nat 3 / of_nat 10 * 100))
   \<and> percentOf 3 10 = 30
   \<and> (0::nat) < 160 \<and> (23::nat) \<le> 160 \<and> (160::nat) < 2 ^ 32
   \<and> (of_nat 23 * 10000 / of_nat 160 :: rat) - of_int \<lfloor>of_nat 23 * 10000 / of_nat 160 :: rat\<rfloor> = 1 / 2
   \<and> percentOf 23 160 = fl (roundHalfUp2 (of_nat 23 / of_nat 160 * 100) - 1 / 100)"
proof -
  have a: "(0::nat) < 10 \<and> (3::nat) \<le> 10 \<and> (10::nat) < 2 ^ 32"
    and b: "(0::nat) < 160 \<and> (23::nat) \<le> 160 \<and> (160::nat) < 2 ^ 32"
    by simp_all
  have c: "(of_nat 3 * 10000 / of_nat 10 :: rat) - of_int \<lfloor>of_nat 3 * 10000 / of_nat 10 :: rat\<rfloor> \<noteq> 1 / 2"
    and d: "(of_nat 23 * 10000 / of_nat 160 :: rat) - of_int \<lfloor>of_nat 23 * 10000 / of_nat 160 :: rat\<rfloor> = 1 / 2"
    by code_simp+
  from percentages_half_up_off_ties [of 3 10] a c
  have e: "percentOf 3 10 = fl (roundHalfUp2 (of_nat 3 / of_nat 10 * 100))"
    by blast
  have f: "percentOf 3 10 = 30"
    by (rule percentOf_tenths)
  have "roundHalfUp2 (of_nat 23 / of_nat 160 * 100) - 1 / 100 = 1437 / 100"
    by code_simp
  then have g: "percentOf 23 160 = fl (roundHalfUp2 (of_nat 23 / of_nat 160 * 100) - 1 / 100)"
    by (simp only: percentOf_23_160)
  from a b c d e f g show ?thesis by blast
qed

section \<open>Properties of the profile action\<close>

lemma sanitizeText_trim:
  "sanitizeText v = (case v of None \<Rightarrow> [] | Some s \<Rightarrow> trim s)"
  by (simp add: sanitizeText_def Let_def split: option.splits)

text \<open>What is left after trimming has no white space at either end, and lies within the input.\<close>

lemma trim_ends:
  "trim s \<noteq> [] \<Longrightarrow> \<not> isWhiteSpace (hd (trim s)) \<and> \<not> isWhiteSpace (last (trim s))"
proof -
  assume ne: "trim s \<noteq> []"
  let ?a = "dropWhile isWhiteSpace s"
  let ?b = "dropWhile isWhiteSpace (rev ?a)"
  from ne have b: "?b \<noteq> []" by (simp add: trim_def)
  then have l: "\<not> isWhiteSpace (hd ?b)" by (simp add: hd_dropWhile)
  from b have a: "?a \<noteq> []" by (cases "?a") simp_all
  then have ha: "\<not> isWhiteSpace (hd ?a)" by (simp add: hd_dropWhile)
  have "rev ?a = takeWhile isWhiteSpace (rev ?a) @ ?b" by simp
  then have "?a = rev ?b @ rev (takeWhile isWhiteSpace (rev ?a))"
    by (metis rev_append rev_rev_ident)
  with b have "hd ?a = hd (rev ?b)" by (metis hd_append2 rev_is_Nil_conv)
  with ha l b show ?thesis by (simp add: trim_def hd_rev last_rev)
qed

lemma trim_within: "\<exists>pre post. s = pre @ trim s @ post \<and> list_all isWhiteSpace pre \<and> list_all isWhiteSpace post"
proof -
  let ?a = "dropWhile isWhiteSpace s"
  let ?b = "dropWhile isWhiteSpace (rev ?a)"
  have 1: "s = takeWhile isWhiteSpace s @ ?a" by simp
  have "rev ?a = takeWhile isWhiteSpace (rev ?a) @ ?b" by simp
  then have 2: "?a = rev ?b @ rev (takeWhile isWhiteSpace (rev ?a))"
    by (metis rev_append rev_rev_ident)
  have "s = takeWhile isWhiteSpace s @ trim s @ rev (takeWhile isWhiteSpace (rev ?a))"
    using 1 2 by (metis trim_def)
  moreover have "list_all isWhiteSpace (takeWhile isWhiteSpace s)"
    by (simp add: list_all_iff) (meson set_takeWhileD)
  moreover have "list_all isWhiteSpace (rev (takeWhile isWhiteSpace (rev ?a)))"
    by (simp add: list_all_iff) (meson set_takeWhileD)
  ultimately show ?thesis by blast
qed

lemma mathInt_Nil: "mathInt [] = None"
  by (simp add: mathInt_def)

lemma decimalValue_nonneg_aux:
  "0 \<le> a \<Longrightarrow> list_all isDigit ds \<Longrightarrow> 0 \<le> foldl (\<lambda>a c. 10 * a + digitValue c) a ds"
proof (induction ds arbitrary: a)
  case Nil
  then show ?case by simp
next
  case (Cons d ds)
  from Cons.prems have "0 \<le> digitValue d"
    by (auto simp: isDigit_def digitValue_def)
  with Cons show ?case by simp
qed

text \<open>A string of digits is read as the number it writes, which is not negative.\<close>

lemma mathInt_digits:
  assumes "ds \<noteq> []" and "list_all isDigit ds"
  shows "mathInt ds = Some (decimalValue ds) \<and> 0 \<le> decimalValue ds"
proof -
  from assms obtain d rest where ds: "ds = d # rest" by (cases ds) auto
  with assms have d: "isDigit d" by simp
  then have "\<not> isWhiteSpace d" "d \<noteq> CHR ''-''" "d \<noteq> CHR ''+''"
    by (auto simp: isDigit_def isWhiteSpace_def)
  moreover have "takeWhile isDigit ds = ds"
    using assms by (simp add: list_all_iff)
  ultimately have "mathInt ds = Some (decimalValue ds)"
    using ds by (simp add: mathInt_def Let_def)
  moreover have "0 \<le> decimalValue ds"
    using decimalValue_nonneg_aux [of 0 ds] assms by (simp add: decimalValue_def)
  ultimately show ?thesis by simp
qed

subsection \<open>The Number of an integer\<close>

lemma roundHalfEven_of_int: "roundHalfEven (of_int k) = k"
  by (simp add: roundHalfEven_def)

text \<open>An integer of at most 53 bits is a Number.\<close>

lemma fl_int_exact:
  assumes "\<bar>v\<bar> < 2 ^ 53"
  shows "fl (of_int v) = of_int v"
proof (cases "v = 0")
  case True
  then show ?thesis by (simp add: fl_def)
next
  case False
  define x :: rat where "x = of_int v"
  define L where "L = ilog2 \<bar>x\<bar>"
  have x0: "x \<noteq> 0" "0 < \<bar>x\<bar>" using False by (simp_all add: x_def)
  have "(of_int \<bar>v\<bar> :: rat) < of_int (2 ^ 53)" using assms by (simp only: of_int_less_iff)
  then have xb: "\<bar>x\<bar> < 2 ^ 53" by (simp add: x_def)
  have "L < 53"
  proof (rule ccontr)
    assume "\<not> L < 53"
    then have "(2::rat) powi 53 \<le> 2 powi L" by (intro power_int_increasing) simp_all
    also have "\<dots> \<le> \<bar>x\<bar>" using ilog2_bounds [OF x0(2)] by (simp add: L_def)
    finally show False using xb by simp
  qed
  then have e: "0 \<le> 52 - L" by simp
  define n where "n = nat (52 - L)"
  have p: "(2::rat) powi (L - 52) = 1 / 2 ^ n"
    using e by (simp add: power_int_def n_def field_simps)
  have q: "x / (1 / 2 ^ n) = of_int (v * 2 ^ n)"
    by (simp add: x_def)
  have "fl x = of_int (roundHalfEven (x / 2 powi (L - 52))) * 2 powi (L - 52)"
    using x0(1) by (simp add: fl_def L_def Let_def)
  also have "\<dots> = of_int (roundHalfEven (x / (1 / 2 ^ n))) * (1 / 2 ^ n)"
    by (simp only: p)
  also have "\<dots> = of_int (v * 2 ^ n) * (1 / 2 ^ n)"
    by (simp only: q roundHalfEven_of_int)
  finally show ?thesis by (simp add: x_def)
qed

lemma fl_negative: "x < 0 \<Longrightarrow> fl x < 0"
proof -
  assume x: "x < 0"
  have "fl x - x \<le> \<bar>fl x - x\<bar>" by simp
  also have "\<dots> \<le> \<bar>x\<bar> / 2 ^ 53" by (rule fl_error)
  also have "\<dots> = - x / 2 ^ 53" using x by simp
  finally have "fl x \<le> x - x / 2 ^ 53" by simp
  moreover have "x - x / 2 ^ 53 < 0" using x by (simp add: field_simps)
  ultimately show ?thesis by simp
qed

lemma toNumber_not_NaN: "\<not> isNaN (toNumber v)"
  by (simp add: toNumber_def isNaN_def Let_def)

text \<open>The Number of an integer is below 0 exactly when the integer is.\<close>

lemma toNumber_lessThanZero: "lessThanZero (toNumber v) \<longleftrightarrow> v < 0"
proof (cases "v < 0")
  case True
  then have "(of_int v :: rat) < 0" by simp
  then have "fl (of_int v) < 0" by (rule fl_negative)
  with True show ?thesis
    by (auto simp: toNumber_def lessThanZero_def Let_def)
next
  case False
  then have "(0::rat) \<le> of_int v" by simp
  then have "0 \<le> fl (of_int v)" by (rule fl_nonneg)
  with False show ?thesis
    by (auto simp: toNumber_def lessThanZero_def Let_def)
qed

lemma toNumber_exact:
  assumes "\<bar>v\<bar> \<le> 2 ^ 53"
  shows "toNumber v = Finite (of_int v)"
proof -
  have big: "fl (2 ^ 53) = 2 ^ 53" "fl (- (2 ^ 53)) = - (2 ^ 53)"
    by code_simp+
  have f: "fl (of_int v) = of_int v"
  proof (cases "\<bar>v\<bar> < 2 ^ 53")
    case True
    then show ?thesis by (rule fl_int_exact)
  next
    case False
    with assms have "v = 2 ^ 53 \<or> v = - (2 ^ 53)" by linarith
    with big show ?thesis by auto
  qed
  have "(of_int \<bar>v\<bar> :: rat) \<le> of_int (2 ^ 53)" using assms by (simp only: of_int_le_iff)
  then have "\<bar>of_int v :: rat\<bar> \<le> 2 ^ 53" by simp
  then have "(of_int v :: rat) < 2 ^ 1024" "- (2 ^ 1024) < (of_int v :: rat)"
    by (simp_all add: abs_le_iff)
  with f show ?thesis by (simp add: toNumber_def Let_def)
qed

lemma mathInt_examples:
  "mathInt ''30'' = Some 30"
  "mathInt ''-1'' = Some (- 1)"
  "mathInt ''12abc'' = Some 12"
  "mathInt ''abc'' = None"
  "mathInt ''9007199254740993'' = Some 9007199254740993"
  by (simp_all add: mathInt_def isWhiteSpace_def isDigit_def decimalValue_def digitValue_def
      Let_def)

lemma decimalValue_nines:
  "foldl (\<lambda>a c. 10 * a + digitValue c) a (replicate n CHR ''9'') = (a + 1) * 10 ^ n - 1"
proof (induction n arbitrary: a)
  case 0
  show ?case by simp
next
  case (Suc n)
  have "digitValue CHR ''9'' = 9" by (simp add: digitValue_def)
  then have "foldl (\<lambda>a c. 10 * a + digitValue c) a (replicate (Suc n) CHR ''9'')
      = foldl (\<lambda>a c. 10 * a + digitValue c) (10 * a + 9) (replicate n CHR ''9'')"
    by simp
  also have "\<dots> = (10 * a + 9 + 1) * 10 ^ n - 1"
    by (rule Suc.IH)
  also have "\<dots> = (a + 1) * 10 ^ Suc n - 1"
    by (simp add: algebra_simps)
  finally show ?case .
qed

lemma mathInt_nines: "mathInt (replicate (Suc n) CHR ''9'') = Some (10 ^ Suc n - 1)"
proof -
  have d: "isDigit CHR ''9''" "\<not> isWhiteSpace CHR ''9''"
    by (simp_all add: isDigit_def isWhiteSpace_def)
  have v: "decimalValue (CHR ''9'' # replicate n CHR ''9'') = 10 * 10 ^ n - 1"
    using decimalValue_nines [of 0 "Suc n"] by (simp add: decimalValue_def)
  show ?thesis
    by (simp add: mathInt_def Let_def d takeWhile_replicate v)
qed

text \<open>
  Beyond 53 bits the Number is not the integer written: \<open>2^53 + 1\<close> is halfway between two
  Numbers and goes to the even one, and 309 nines are beyond every finite Number.
\<close>

lemma toNumber_overflow:
  assumes "2 ^ 1025 \<le> v"
  shows "toNumber v = PosInfinity"
proof -
  define x :: rat where "x = of_int v"
  have "(of_int (2 ^ 1025) :: rat) \<le> of_int v"
    using assms by (simp only: of_int_le_iff)
  then have x: "2 ^ 1025 \<le> x"
    by (simp add: x_def)
  then have x0: "0 \<le> x"
    by (rule order_trans [rotated]) simp
  then have "x / 2 ^ 53 \<le> x / 2"
    by (intro divide_left_mono) simp_all
  moreover have "2 ^ 1024 \<le> x / 2"
    using x by simp
  ultimately have "2 ^ 1024 \<le> fl x"
    using fl_between [OF x0] by linarith
  then show ?thesis
    unfolding toNumber_def Let_def x_def by (simp only: if_True)
qed

lemma toNumber_examples:
  "toNumber 9007199254740993 = Finite 9007199254740992"
  "toNumber (10 ^ 309 - 1) = PosInfinity"
proof -
  have "fl 9007199254740993 = 9007199254740992"
    by code_simp
  then show "toNumber 9007199254740993 = Finite 9007199254740992"
    by (simp add: toNumber_def)
  have "(2::int) ^ 1025 \<le> 10 ^ 309 - 1"
    by simp
  then show "toNumber (10 ^ 309 - 1) = PosInfinity"
    by (rule toNumber_overflow)
qed

lemma parseInt_examples:
  "parseInt ''30'' = Finite 30"
  "parseInt ''-1'' = Finite (- 1)"
  "parseInt ''12abc'' = Finite 12"
  "parseInt ''abc'' = NaN"
  "parseInt ''9007199254740993'' = Finite 9007199254740992"
  "parseInt (replicate 309 CHR ''9'') = PosInfinity"
proof -
  show "parseInt ''30'' = Finite 30" "parseInt ''-1'' = Finite (- 1)"
    "parseInt ''12abc'' = Finite 12" "parseInt ''abc'' = NaN"
    by (simp_all add: parseInt_def mathInt_examples toNumber_exact)
  show "parseInt ''9007199254740993'' = Finite 9007199254740992"
    by (simp add: parseInt_def mathInt_examples toNumber_examples)
  have "replicate 309 CHR ''9'' = replicate (Suc 308) CHR ''9''"
    by (simp only: replicate_Suc [symmetric] Suc_numeral) simp
  then have "mathInt (replicate 309 CHR ''9'') = Some (10 ^ Suc 308 - 1)"
    by (simp only: mathInt_nines)
  moreover have "Suc 308 = 309"
    by simp
  ultimately have "mathInt (replicate 309 CHR ''9'') = Some (10 ^ 309 - 1)"
    by (simp only:)
  then show "parseInt (replicate 309 CHR ''9'') = PosInfinity"
    by (simp only: parseInt_def option.case toNumber_examples)
qed

subsection \<open>The action\<close>

lemma action_unfold:
  "action fd table =
     (if validate (sanitizeText (name_field fd)) (sanitizeText (age_field fd))
           (parseInt (sanitizeText (age_field fd))) = []
      then (Redirect ''/app/profile'',
            table @ [\<lparr>name = sanitizeText (name_field fd),
                      age = parseInt (sanitizeText (age_field fd))\<rparr>])
      else (BadRequest
             (validate (sanitizeText (name_field fd)) (sanitizeText (age_field fd))
                (parseInt (sanitizeText (age_field fd))))
             \<lparr>values_name = sanitizeText (name_field fd),
              values_age = sanitizeText (age_field fd)\<rparr>, table))"
  by (simp add: action_def Let_def)

lemma validate_lookup:
  "map_of (validate nm av ag) ''name'' = (if nm = [] then Some ''Name is required'' else None)"
  "map_of (validate nm av ag) ''age''
     = (if av = [] then Some ''Age is required''
        else if isNaN ag \<or> lessThanZero ag
             then Some ''Age must be a valid non-negative number''
             else None)"
  "fst ` set (validate nm av ag) \<subseteq> {''name'', ''age''}"
  by (auto simp: validate_def)

lemma validate_Nil_iff:
  "validate nm av ag = [] \<longleftrightarrow> nm \<noteq> [] \<and> av \<noteq> [] \<and> \<not> isNaN ag \<and> \<not> lessThanZero ag"
  by (auto simp: validate_def)

text \<open>The two tests of the action on the parsed age, in terms of the integer read.\<close>

lemma parseInt_tests:
  "isNaN (parseInt s) \<longleftrightarrow> mathInt s = None"
  "lessThanZero (parseInt s) \<longleftrightarrow> (\<exists>b. mathInt s = Some b \<and> b < 0)"
proof -
  show "isNaN (parseInt s) \<longleftrightarrow> mathInt s = None"
  proof (cases "mathInt s")
    case None
    then show ?thesis by (simp add: parseInt_def isNaN_def)
  next
    case (Some v)
    then show ?thesis using toNumber_not_NaN [of v] by (simp add: parseInt_def)
  qed
  show "lessThanZero (parseInt s) \<longleftrightarrow> (\<exists>b. mathInt s = Some b \<and> b < 0)"
  proof (cases "mathInt s")
    case None
    then show ?thesis by (simp add: parseInt_def lessThanZero_def)
  next
    case (Some v)
    then show ?thesis by (simp add: parseInt_def toNumber_lessThanZero)
  qed
qed

text \<open>An age of 309 nines passes the validation, and the age handed to the store is infinite.\<close>

lemma action_infinite_age:
  "action \<lparr>name_field = Some ''Ann'', age_field = Some (replicate 309 CHR ''9'')\<rparr> table
     = (Redirect ''/app/profile'', table @ [\<lparr>name = ''Ann'', age = PosInfinity\<rparr>])"
proof -
  let ?nines = "replicate 309 CHR ''9''"
  have "\<not> isWhiteSpace CHR ''9''"
    by (simp add: isWhiteSpace_def)
  then have "trim ?nines = ?nines"
    by (simp only: trim_def dropWhile_replicate rev_replicate if_False)
  then have av: "sanitizeText (Some ?nines) = ?nines"
    by (simp only: sanitizeText_trim option.case)
  have nm: "sanitizeText (Some ''Ann'') = ''Ann''"
    by (simp add: sanitizeText_trim trim_def isWhiteSpace_def)
  have ne: "?nines \<noteq> []"
    by (simp only: replicate_empty)
  have "validate ''Ann'' ?nines PosInfinity = []"
    unfolding validate_Nil_iff using ne by (simp add: isNaN_def lessThanZero_def)
  then show ?thesis
    by (simp only: action_unfold form.simps av nm parseInt_examples(6) if_True simp_thms)
qed

text \<open>
  C6. The name and the age of the form are trimmed (a missing field counts as empty).
  The name must not be empty; the age must not be empty, must parse as an integer and
  must not be negative. When all rules hold, the action hands a profile with that name
  and the Number of the integer read to the store (that Number is the integer itself up
  to \<open>2^53\<close>) and redirects to the profile page. Otherwise it answers with the errors, one
  message for each field that breaks a rule, and with the trimmed values, and the table is
  left as it was. An empty name with age "30" gives the one error "Name is required"; the
  name "Ann" with age "-1" gives the one error "Age must be a valid non-negative number".
\<close>

theorem profile_action_validates:
  assumes "nm = (case name_field fd of None \<Rightarrow> [] | Some s \<Rightarrow> trim s)"
    and "av = (case age_field fd of None \<Rightarrow> [] | Some s \<Rightarrow> trim s)"
  shows
  "(nm \<noteq> [] \<and> mathInt av = Some a \<and> 0 \<le> a
      \<longrightarrow> action fd table
            = (Redirect ''/app/profile'', table @ [\<lparr>name = nm, age = toNumber a\<rparr>])
          \<and> parseInt av = toNumber a
          \<and> (a \<le> 2 ^ 53 \<longrightarrow> toNumber a = Finite (of_int a)))
   \<and> (nm = [] \<or> av = [] \<or> mathInt av = None \<or> (\<exists>b. mathInt av = Some b \<and> b < 0)
      \<longrightarrow> (\<exists>errs. action fd table
                  = (BadRequest errs \<lparr>values_name = nm, values_age = av\<rparr>, table)
            \<and> errs \<noteq> []
            \<and> map_of errs ''name'' = (if nm = [] then Some ''Name is required'' else None)
            \<and> map_of errs ''age''
              = (if av = [] then Some ''Age is required''
                 else if mathInt av = None \<or> (\<exists>b. mathInt av = Some b \<and> b < 0)
                      then Some ''Age must be a valid non-negative number''
                      else None)
            \<and> fst ` set errs \<subseteq> {''name'', ''age''}))
   \<and> action \<lparr>name_field = Some [], age_field = Some ''30''\<rparr> table
     = (BadRequest [(''name'', ''Name is required'')]
          \<lparr>values_name = [], values_age = ''30''\<rparr>, table)
   \<and> action \<lparr>name_field = Some ''Ann'', age_field = Some ''-1''\<rparr> table
     = (BadRequest [(''age'', ''Age must be a valid non-negative number'')]
          \<lparr>values_name = ''Ann'', values_age = ''-1''\<rparr>, table)
   \<and> action \<lparr>name_field = Some ''Ann'', age_field = Some ''9007199254740993''\<rparr> table
     = (Redirect ''/app/profile'', table @ [\<lparr>name = ''Ann'', age = Finite 9007199254740992\<rparr>])"
proof (intro conjI impI)
  have nm: "sanitizeText (name_field fd) = nm" and av: "sanitizeText (age_field fd) = av"
    using assms by (simp_all add: sanitizeText_trim)
  {
    assume h: "nm \<noteq> [] \<and> mathInt av = Some a \<and> 0 \<le> a"
    then have ne: "av \<noteq> []"
      using mathInt_Nil by auto
    from h show p: "parseInt av = toNumber a"
      by (simp add: parseInt_def)
    from h ne have "validate nm av (parseInt av) = []"
      by (simp add: validate_Nil_iff parseInt_tests)
    then show "action fd table
        = (Redirect ''/app/profile'', table @ [\<lparr>name = nm, age = toNumber a\<rparr>])"
      by (simp add: action_unfold nm av p)
    {
      assume "a \<le> 2 ^ 53"
      with h have "\<bar>a\<bar> \<le> 2 ^ 53" by simp
      then show "toNumber a = Finite (of_int a)" by (rule toNumber_exact)
    }
  next
    assume "nm = [] \<or> av = [] \<or> mathInt av = None \<or> (\<exists>b. mathInt av = Some b \<and> b < 0)"
    then have ne: "validate nm av (parseInt av) \<noteq> []"
      by (auto simp: validate_Nil_iff parseInt_tests)
    then have "action fd table
        = (BadRequest (validate nm av (parseInt av)) \<lparr>values_name = nm, values_age = av\<rparr>, table)"
      by (simp add: action_unfold nm av)
    with ne validate_lookup [of nm av "parseInt av"]
    show "\<exists>errs. action fd table
                  = (BadRequest errs \<lparr>values_name = nm, values_age = av\<rparr>, table)
            \<and> errs \<noteq> []
            \<and> map_of errs ''name'' = (if nm = [] then Some ''Name is required'' else None)
            \<and> map_of errs ''age''
              = (if av = [] then Some ''Age is required''
                 else if mathInt av = None \<or> (\<exists>b. mathInt av = Some b \<and> b < 0)
                      then Some ''Age must be a valid non-negative number''
                      else None)
            \<and> fst ` set errs \<subseteq> {''name'', ''age''}"
      unfolding parseInt_tests by blast
  }
next
  have t: "trim [] = []" "trim ''30'' = ''30''" "trim ''Ann'' = ''Ann''" "trim ''-1'' = ''-1''"
    "trim ''9007199254740993'' = ''9007199254740993''"
    by (simp_all add: trim_def isWhiteSpace_def)
  have l: "lessThanZero (Finite (- 1))" "\<not> lessThanZero (Finite 30)"
    "\<not> lessThanZero (Finite 9007199254740992)" "\<not> lessThanZero PosInfinity"
    by (simp_all add: lessThanZero_def)
  show "action \<lparr>name_field = Some [], age_field = Some ''30''\<rparr> table
     = (BadRequest [(''name'', ''Name is required'')]
          \<lparr>values_name = [], values_age = ''30''\<rparr>, table)"
    by (simp add: action_unfold sanitizeText_trim t parseInt_examples(1-5) validate_def isNaN_def l)
  show "action \<lparr>name_field = Some ''Ann'', age_field = Some ''-1''\<rparr> table
     = (BadRequest [(''age'', ''Age must be a valid non-negative number'')]
          \<lparr>values_name = ''Ann'', values_age = ''-1''\<rparr>, table)"
    by (simp add: action_unfold sanitizeText_trim t parseInt_examples(1-5) validate_def isNaN_def l)
  show "action \<lparr>name_field = Some ''Ann'', age_field = Some ''9007199254740993''\<rparr> table
     = (Redirect ''/app/profile'', table @ [\<lparr>name = ''Ann'', age = Finite 9007199254740992\<rparr>])"
    by (simp add: action_unfold sanitizeText_trim t parseInt_examples(1-5) validate_def isNaN_def l)
qed

theorem profile_action_validates_witness:
  "''Ann'' = (case name_field annForm of None \<Rightarrow> [] | Some s \<Rightarrow> trim s)
   \<and> ''30'' = (case age_field annForm of None \<Rightarrow> [] | Some s \<Rightarrow> trim s)
   \<and> mathInt ''30'' = Some 30
   \<and> (30::int) \<le> 2 ^ 53
   \<and> toNumber 30 = Finite 30
   \<and> action annForm [] = (Redirect ''/app/profile'', [\<lparr>name = ''Ann'', age = Finite 30\<rparr>])
   \<and> [] = (case name_field badForm of None \<Rightarrow> [] | Some s \<Rightarrow> trim s)
   \<and> ''abc'' = (case age_field badForm of None \<Rightarrow> [] | Some s \<Rightarrow> trim s)
   \<and> mathInt ''abc'' = None
   \<and> (\<exists>errs. action badForm [] = (BadRequest errs \<lparr>values_name = [], values_age = ''abc''\<rparr>, [])
        \<and> map_of errs ''name'' = Some ''Name is required''
        \<and> map_of errs ''age'' = Some ''Age must be a valid non-negative number'')"
proof -
  have n1: "''Ann'' = (case name_field annForm of None \<Rightarrow> [] | Some s \<Rightarrow> trim s)"
    and a1: "''30'' = (case age_field annForm of None \<Rightarrow> [] | Some s \<Rightarrow> trim s)"
    and n2: "[] = (case name_field badForm of None \<Rightarrow> [] | Some s \<Rightarrow> trim s)"
    and a2: "''abc'' = (case age_field badForm of None \<Rightarrow> [] | Some s \<Rightarrow> trim s)"
    by (simp_all add: annForm_def badForm_def trim_def isWhiteSpace_def)
  have p1: "mathInt ''30'' = Some 30" and p2: "mathInt ''abc'' = None"
    by (simp_all add: mathInt_def isWhiteSpace_def isDigit_def decimalValue_def digitValue_def
        Let_def)
  have b: "(30::int) \<le> 2 ^ 53" by simp
  from profile_action_validates [OF n1 a1, of 30 "[]"] p1 b
  have ok: "action annForm [] = (Redirect ''/app/profile'', [\<lparr>name = ''Ann'', age = toNumber 30\<rparr>])"
    and ex: "toNumber 30 = Finite 30"
    by simp_all
  from profile_action_validates [OF n2 a2, of 0 "[]"] p2
  have bad: "\<exists>errs. action badForm [] = (BadRequest errs \<lparr>values_name = [], values_age = ''abc''\<rparr>, [])
        \<and> map_of errs ''name'' = Some ''Name is required''
        \<and> map_of errs ''age'' = Some ''Age must be a valid non-negative number''"
    by auto
  from ok ex have ok': "action annForm [] = (Redirect ''/app/profile'', [\<lparr>name = ''Ann'', age = Finite 30\<rparr>])"
    by simp
  from n1 a1 n2 a2 p1 p2 b ex ok' bad show ?thesis by blast
qed

end
